theory Spec2Isabelle
  imports Complex_Main "HOL-Library.Log_Nat"
begin

section \<open>Numbers\<close>

text \<open>
  A JavaScript number is a binary64 value. A finite one is modelled by its exact value, a
  rational; the two zeros are one value, since nothing in the code modelled here tells
  them apart (\<^verbatim>\<open>===\<close>, \<^verbatim>\<open><\<close>, \<^verbatim>\<open>+\<close>, \<^verbatim>\<open>-\<close>, \<^verbatim>\<open>/\<close> by a length and \<^verbatim>\<open>toFixed\<close> do not).
  The type has room for rationals that are no binary64 value; every operation below
  returns binary64 values only.
\<close>

datatype number = Finite rat | PlusInfinity | MinusInfinity | NaN

text \<open>
  Rounding a rational to binary64, to nearest with ties to even. \<open>ilog2 x\<close> is the
  exponent of a positive \<open>x\<close>, the integer \<open>e\<close> with \<open>2\<^sup>e \<le> x < 2\<^sup>e\<^sup>+\<^sup>1\<close>, found from the bit
  lengths of numerator and denominator. \<open>quantum x\<close> is the spacing of the binary64 numbers
  at \<open>x\<close>: 52 binary places below the exponent, and \<open>2\<^sup>-\<^sup>1\<^sup>0\<^sup>7\<^sup>4\<close> for the subnormal numbers. The
  result is the multiple of the quantum nearest to \<open>x\<close>, and an infinity when that
  multiple is \<open>2\<^sup>1\<^sup>0\<^sup>2\<^sup>4\<close> or more in magnitude (its exponent is 1024 or more).
\<close>

definition ilog2 :: "rat \<Rightarrow> int" where
  "ilog2 x =
     (let (a, b) = quotient_of x; d = bitlen a - bitlen b
      in if 2 powi d \<le> x then d else d - 1)"

definition quantum :: "rat \<Rightarrow> rat" where
  "quantum x = 2 powi (max (ilog2 \<bar>x\<bar>) (- 1022) - 52)"

definition round_even :: "rat \<Rightarrow> int" where
  "round_even y =
     (let f = \<lfloor>y\<rfloor>; r = y - of_int f
      in if r < 1 / 2 then f
         else if 1 / 2 < r then f + 1
         else if even f then f else f + 1)"

definition round_binary64 :: "rat \<Rightarrow> number" where
  "round_binary64 x =
     (if x = 0 then Finite 0
      else
        let q = quantum x; y = of_int (round_even (x / q)) * q
        in if 1024 \<le> ilog2 \<bar>y\<bar> then (if 0 < x then PlusInfinity else MinusInfinity)
           else Finite y)"

text \<open>
  The number a decimal literal, or a number in a JSON document, denotes.
\<close>

definition literal :: "rat \<Rightarrow> number" where
  "literal r = round_binary64 r"

text \<open>
  Negation, \<^verbatim>\<open>+\<close>, \<^verbatim>\<open>-\<close> and \<^verbatim>\<open><\<close>, \<^verbatim>\<open><=\<close> on numbers, and \<^verbatim>\<open>/\<close> of a number by the
  length of an array: the exact result, rounded to binary64. \<open>js_divide\<close> is the quotient
  as the balance computation takes it: a zero divisor, for which JavaScript gives an
  infinity or \<^verbatim>\<open>NaN\<close>, is the failure value \<open>None\<close>.
\<close>

fun js_neg :: "number \<Rightarrow> number" where
  "js_neg (Finite a) = Finite (- a)"
| "js_neg PlusInfinity = MinusInfinity"
| "js_neg MinusInfinity = PlusInfinity"
| "js_neg NaN = NaN"

fun js_add :: "number \<Rightarrow> number \<Rightarrow> number" where
  "js_add (Finite a) (Finite b) = round_binary64 (a + b)"
| "js_add NaN y = NaN"
| "js_add x NaN = NaN"
| "js_add PlusInfinity MinusInfinity = NaN"
| "js_add MinusInfinity PlusInfinity = NaN"
| "js_add PlusInfinity y = PlusInfinity"
| "js_add x PlusInfinity = PlusInfinity"
| "js_add MinusInfinity y = MinusInfinity"
| "js_add x MinusInfinity = MinusInfinity"

definition js_sub :: "number \<Rightarrow> number \<Rightarrow> number" where
  "js_sub x y = js_add x (js_neg y)"

fun js_quotient :: "number \<Rightarrow> nat \<Rightarrow> number" where
  "js_quotient (Finite a) n =
     (if n = 0 then (if a = 0 then NaN else if 0 < a then PlusInfinity else MinusInfinity)
      else round_binary64 (a / of_nat n))"
| "js_quotient PlusInfinity n = PlusInfinity"
| "js_quotient MinusInfinity n = MinusInfinity"
| "js_quotient NaN n = NaN"

definition js_divide :: "number \<Rightarrow> nat \<Rightarrow> number option" where
  "js_divide a n = (if n = 0 then None else Some (js_quotient a n))"

fun js_lt :: "number \<Rightarrow> number \<Rightarrow> bool" where
  "js_lt (Finite a) (Finite b) = (a < b)"
| "js_lt (Finite a) PlusInfinity = True"
| "js_lt MinusInfinity (Finite b) = True"
| "js_lt MinusInfinity PlusInfinity = True"
| "js_lt x y = False"

fun js_le :: "number \<Rightarrow> number \<Rightarrow> bool" where
  "js_le (Finite a) (Finite b) = (a \<le> b)"
| "js_le NaN y = False"
| "js_le x NaN = False"
| "js_le MinusInfinity y = True"
| "js_le x PlusInfinity = True"
| "js_le x y = False"

text \<open>
  \<^verbatim>\<open>x.toFixed(2)\<close> and \<^verbatim>\<open>parseFloat\<close> of its result. The string that \<^verbatim>\<open>toFixed\<close> returns is
  modelled by what it denotes. For a finite \<open>x\<close> below \<open>10\<^sup>2\<^sup>1\<close> in magnitude, \<^verbatim>\<open>toFixed\<close>
  takes the sign off, lets \<open>n\<close> be an integer for which \<open>n / 100 - x\<close> is as close to
  zero as possible, the larger one of two, and prints the digits of \<open>n\<close> with two
  fraction digits: a decimal. For every other \<open>x\<close> it returns the string of \<open>x\<close>, which
  reads back as \<open>x\<close>. \<^verbatim>\<open>parseFloat\<close> returns the binary64 number nearest to a decimal.
\<close>

datatype printed = Decimal rat | ToString number

definition closest_integer :: "rat \<Rightarrow> int" where
  "closest_integer y = (let f = \<lfloor>y\<rfloor> in if y - of_int f < 1 / 2 then f else f + 1)"

definition toFixed2 :: "number \<Rightarrow> printed" where
  "toFixed2 x =
     (case x of
        Finite r \<Rightarrow>
          if 10 ^ 21 \<le> \<bar>r\<bar> then ToString x
          else
            let n = closest_integer (\<bar>r\<bar> * 100)
            in Decimal (if r < 0 then - (of_int n / 100) else of_int n / 100)
      | _ \<Rightarrow> ToString x)"

fun parseFloat :: "printed \<Rightarrow> number" where
  "parseFloat (Decimal d) = round_binary64 d"
| "parseFloat (ToString x) = x"

section \<open>Data model of the group view\<close>

text \<open>
  The interfaces \<^verbatim>\<open>User\<close>, \<^verbatim>\<open>Expense\<close>, \<^verbatim>\<open>Message\<close>, \<^verbatim>\<open>Invite\<close> and \<^verbatim>\<open>Group\<close> of
  the group details component. The field \<^verbatim>\<open>_id\<close> of each interface gets the name of its
  interface in front, since an Isabelle name cannot start with an underscore.
\<close>

record user =
  user_id :: string
  user_name :: string
  user_email :: string

text \<open>
  The interface types \<^verbatim>\<open>paidBy\<close> as a \<^verbatim>\<open>User\<close> and \<^verbatim>\<open>splitAmong\<close> as \<^verbatim>\<open>User[]\<close>, but
  the balance computation compares both the \<^verbatim>\<open>_id\<close> of the value and the value itself
  with the member identifier: a reference is a populated record or a bare identifier.
  The payer is read through \<^verbatim>\<open>?.\<close> and may be missing; \<^verbatim>\<open>splitAmong\<close> is read as it
  is and is the array the interface declares. The expense list of a group is read through
  \<^verbatim>\<open>?.\<close> as well and may be missing.
\<close>

datatype member_ref = Populated user | BareId string

record expense =
  expense_id :: string
  description :: string
  amount :: number
  paidBy :: "member_ref option"
  splitAmong :: "member_ref list"
  createdAt :: string

record message =
  msg_user :: string
  msg_userId :: string
  msg_message :: string
  msg_time :: string

record invite =
  invite_email :: string
  invite_createdAt :: string

record group =
  group_id :: string
  group_name :: string
  members :: "user list"
  expenses :: "expense list option"
  messages :: "message list"
  invites :: "invite list option"

record balance =
  paid :: number
  share :: number
  net :: number

section \<open>Balance computation\<close>

text \<open>
  \<^verbatim>\<open>x?._id === memberId || x === memberId\<close> for a reference \<open>x\<close>: a populated record
  matches by its \<^verbatim>\<open>_id\<close>, a bare identifier by itself.
\<close>

fun ref_matches :: "string \<Rightarrow> member_ref \<Rightarrow> bool" where
  "ref_matches memberId (Populated u) = (user_id u = memberId)"
| "ref_matches memberId (BareId s) = (s = memberId)"

definition payer_matches :: "string \<Rightarrow> expense \<Rightarrow> bool" where
  "payer_matches memberId e =
     (case paidBy e of None \<Rightarrow> False | Some p \<Rightarrow> ref_matches memberId p)"

text \<open>\<^verbatim>\<open>const individualShare = parseFloat((e.amount / numSplit).toFixed(2))\<close>\<close>

definition individualShare :: "expense \<Rightarrow> number option" where
  "individualShare e =
     map_option (\<lambda>q. parseFloat (toFixed2 q)) (js_divide (amount e) (length (splitAmong e)))"

text \<open>
  The callback of \<^verbatim>\<open>group.expenses.forEach\<close>, on the pair of the two accumulators
  \<^verbatim>\<open>paid\<close> and \<^verbatim>\<open>share\<close>. The guard on \<^verbatim>\<open>numSplit\<close> returns from the callback before
  anything else is done with the expense.
\<close>

definition forEach_body :: "string \<Rightarrow> expense \<Rightarrow> number \<times> number \<Rightarrow> (number \<times> number) option" where
  "forEach_body memberId e acc =
     (let numSplit = length (splitAmong e) in
      if numSplit = 0 then Some acc
      else
        case individualShare e of
          None \<Rightarrow> None
        | Some s \<Rightarrow>
            let paid' = (if payer_matches memberId e then js_add (fst acc) (amount e) else fst acc);
                share' = (if list_ex (ref_matches memberId) (splitAmong e)
                          then js_add (snd acc) s else snd acc)
            in Some (paid', share'))"

fun forEach :: "string \<Rightarrow> expense list \<Rightarrow> number \<times> number \<Rightarrow> (number \<times> number) option" where
  "forEach memberId [] acc = Some acc"
| "forEach memberId (e # es) acc =
     (case forEach_body memberId e acc of
        None \<Rightarrow> None
      | Some acc' \<Rightarrow> forEach memberId es acc')"

definition zero_balance :: balance where
  "zero_balance = \<lparr>paid = Finite 0, share = Finite 0, net = Finite 0\<rparr>"

text \<open>
  \<^verbatim>\<open>computeMemberBalance\<close> closes over the component's \<^verbatim>\<open>group\<close> state, which is
  \<^verbatim>\<open>null\<close> until the first fetch has answered; the state is the first argument here.
\<close>

definition computeMemberBalance :: "group option \<Rightarrow> string \<Rightarrow> balance option" where
  "computeMemberBalance grp memberId =
     (case grp of
        None \<Rightarrow> Some zero_balance
      | Some g \<Rightarrow>
          (case expenses g of
             None \<Rightarrow> Some zero_balance
           | Some es \<Rightarrow>
               (case forEach memberId es (Finite 0, Finite 0) of
                  None \<Rightarrow> None
                | Some (p, s) \<Rightarrow>
                    Some \<lparr>paid = p, share = s, net = parseFloat (toFixed2 (js_sub p s))\<rparr>)))"

subsection \<open>The sums the balance is specified by\<close>

text \<open>
  What the specification says of the balance, in its words and with the arithmetic of
  the language. A sum is accumulated from 0 in the order of the list. Rounding to two
  decimals takes the multiple of 0.01 nearest to the number, away from zero of two, and
  then the binary64 number nearest to it; a number of magnitude \<open>10\<^sup>2\<^sup>1\<close> or more has no
  fraction digits and stays, and so do the infinities and \<^verbatim>\<open>NaN\<close>.
\<close>

definition js_sum :: "number list \<Rightarrow> number" where
  "js_sum xs = foldl js_add (Finite 0) xs"

definition two_decimals :: "rat \<Rightarrow> rat" where
  "two_decimals x = sgn x * (of_int (round (\<bar>x\<bar> * 100)) / 100)"

definition round2 :: "number \<Rightarrow> number" where
  "round2 x =
     (case x of
        Finite r \<Rightarrow> if \<bar>r\<bar> < 10 ^ 21 then round_binary64 (two_decimals r) else x
      | _ \<Rightarrow> x)"

text \<open>
  The identifier a reference stands for: the \<^verbatim>\<open>_id\<close> of a populated record, or the
  bare identifier itself.
\<close>

fun ref_id :: "member_ref \<Rightarrow> string" where
  "ref_id (Populated u) = user_id u"
| "ref_id (BareId s) = s"

text \<open>
  The share sums the rounded quotient over the expenses whose split-among list is
  non-empty and contains the member. \<open>claimed_paid\<close> sums the raw amount over every
  expense the member is the payer of; \<open>paid_of_list\<close> over those of them that have a
  non-empty split-among list.
\<close>

definition share_of_list :: "string \<Rightarrow> expense list \<Rightarrow> number" where
  "share_of_list memberId es =
     js_sum (map (\<lambda>e. round2 (js_quotient (amount e) (length (splitAmong e))))
       (filter (\<lambda>e. splitAmong e \<noteq> [] \<and> memberId \<in> set (map ref_id (splitAmong e))) es))"

definition claimed_paid :: "string \<Rightarrow> expense list \<Rightarrow> number" where
  "claimed_paid memberId es =
     js_sum (map amount (filter (\<lambda>e. map_option ref_id (paidBy e) = Some memberId) es))"

definition paid_of_list :: "string \<Rightarrow> expense list \<Rightarrow> number" where
  "paid_of_list memberId es =
     js_sum (map amount
       (filter (\<lambda>e. splitAmong e \<noteq> [] \<and> map_option ref_id (paidBy e) = Some memberId) es))"

text \<open>
  The expenses of the snapshot, none when the snapshot or its list is missing.
\<close>

definition expenses_of :: "group option \<Rightarrow> expense list" where
  "expenses_of grp =
     (case grp of
        None \<Rightarrow> []
      | Some g \<Rightarrow> (case expenses g of None \<Rightarrow> [] | Some es \<Rightarrow> es))"

section \<open>Credential store\<close>

text \<open>
  The two browser stores, each a map from key to string: \<^verbatim>\<open>getItem\<close> of a missing key
  is \<^verbatim>\<open>null\<close>, here \<open>None\<close>.
\<close>

record storage =
  sessionStorage :: "string \<rightharpoonup> string"
  localStorage :: "string \<rightharpoonup> string"

text \<open>
  Truthiness of a value that is a string or \<^verbatim>\<open>null\<close>/\<^verbatim>\<open>undefined\<close>: the missing value
  and the empty string are falsy. \<open>js_or\<close> is \<^verbatim>\<open>a || b\<close> on such values.
\<close>

definition truthy :: "string option \<Rightarrow> bool" where
  "truthy v = (case v of None \<Rightarrow> False | Some s \<Rightarrow> s \<noteq> [])"

definition js_or :: "string option \<Rightarrow> string option \<Rightarrow> string option" where
  "js_or a b = (if truthy a then a else b)"

text \<open>
  \<^verbatim>\<open>setAuthData(user, token)\<close>. The user is an object or missing, and an object is
  truthy. \<^verbatim>\<open>JSON.stringify\<close> is the runtime's and is a parameter.
\<close>

definition setAuthData :: "(user \<Rightarrow> string) \<Rightarrow> user option \<Rightarrow> string option \<Rightarrow> storage \<Rightarrow> storage" where
  "setAuthData JSON_stringify usr token st =
     (case usr of
        None \<Rightarrow> st
      | Some u \<Rightarrow>
          (case token of
             None \<Rightarrow> st
           | Some t \<Rightarrow>
               if t = [] then st
               else
                 let userStr = JSON_stringify u in
                 st\<lparr>sessionStorage := (sessionStorage st)(''user'' \<mapsto> userStr, ''token'' \<mapsto> t),
                    localStorage := (localStorage st)(''user'' \<mapsto> userStr, ''token'' \<mapsto> t)\<rparr>))"

definition getAuthToken :: "storage \<Rightarrow> string option" where
  "getAuthToken st = js_or (sessionStorage st ''token'') (localStorage st ''token'')"

definition clearAuthData :: "storage \<Rightarrow> storage" where
  "clearAuthData st =
     st\<lparr>sessionStorage := (sessionStorage st)(''user'' := None, ''token'' := None),
        localStorage := (localStorage st)(''user'' := None, ''token'' := None)\<rparr>"

section \<open>Group view: fetch, realtime join and the expense event\<close>

text \<open>
  What the view does to the outside is a list of actions, in the order the code performs
  them; what it does to its own React state is the new state. An \<^verbatim>\<open>async\<close> function is
  modelled up to its first \<^verbatim>\<open>await\<close>.
\<close>

datatype action =
    Navigate string
  | AxiosGetGroup string string
  | ToastNewExpense string number
  | SocketConnect
  | SocketEmit string string
  | SocketOn string
  | SocketOff string

text \<open>
  What a run of the effects reads from outside the component: the two stores,
  \<^verbatim>\<open>socket.connected\<close> and the route parameter.
\<close>

record env =
  store :: storage
  socket_connected :: bool
  groupId :: string

text \<open>
  The state of the view: \<^verbatim>\<open>group\<close>, \<^verbatim>\<open>loading\<close>, and whether the last run of the
  socket effect returned its cleanup function (it does when it got past the token check).
\<close>

record view =
  view_group :: "group option"
  loading :: bool
  subscribed :: bool

text \<open>
  \<^verbatim>\<open>fetchGroupData\<close> up to the request: without a token it navigates to the login route
  and returns, and the \<^verbatim>\<open>finally\<close> block clears \<^verbatim>\<open>loading\<close>. The second argument of
  \<open>AxiosGetGroup\<close> is the bearer token.
\<close>

definition fetchGroupData :: "env \<Rightarrow> view \<Rightarrow> view \<times> action list" where
  "fetchGroupData en v =
     (case getAuthToken (store en) of
        None \<Rightarrow> (v\<lparr>loading := False\<rparr>, [Navigate ''/login''])
      | Some token \<Rightarrow>
          if token = [] then (v\<lparr>loading := False\<rparr>, [Navigate ''/login''])
          else (v, [AxiosGetGroup (groupId en) token]))"

text \<open>The updater that \<^verbatim>\<open>handleExpense\<close> passes to \<^verbatim>\<open>setGroup\<close>.\<close>

definition mergeExpense :: "expense \<Rightarrow> group option \<Rightarrow> group option" where
  "mergeExpense ex prev =
     (case prev of
        None \<Rightarrow> None
      | Some g \<Rightarrow>
          if (case expenses g of
                None \<Rightarrow> False
              | Some es \<Rightarrow> list_ex (\<lambda>e. expense_id e = expense_id ex) es)
          then Some g
          else Some (g\<lparr>expenses :=
                 Some ((case expenses g of None \<Rightarrow> [] | Some es \<Rightarrow> es) @ [ex])\<rparr>))"

text \<open>The listener of \<^verbatim>\<open>expenseAdded\<close>: the toast, the state update, then the re-fetch.\<close>

definition handleExpense :: "expense \<Rightarrow> env \<Rightarrow> view \<Rightarrow> view \<times> action list" where
  "handleExpense ex en v =
     (let v' = v\<lparr>view_group := mergeExpense ex (view_group v)\<rparr>;
          (v'', fetched) = fetchGroupData en v'
      in (v'', ToastNewExpense (description ex) (amount ex) # fetched))"

text \<open>
  The socket effect and its cleanup. The effect returns at once without a token; with
  one it connects unless connected, announces the group and registers the five listeners.
\<close>

definition socket_events :: "string list" where
  "socket_events =
     [''newMessage'', ''expenseAdded'', ''memberAdded'', ''memberRemoved'', ''inviteCancelled'']"

definition socketEffect :: "env \<Rightarrow> view \<Rightarrow> view \<times> action list" where
  "socketEffect en v =
     (if \<not> truthy (getAuthToken (store en)) then (v\<lparr>subscribed := False\<rparr>, [])
      else (v\<lparr>subscribed := True\<rparr>,
            (if socket_connected en then [] else [SocketConnect])
            @ [SocketEmit ''joinGroup'' (groupId en)]
            @ map SocketOn socket_events))"

definition socketCleanup :: "view \<Rightarrow> action list" where
  "socketCleanup v = (if subscribed v then map SocketOff socket_events else [])"

text \<open>
  When the effects run. \<^verbatim>\<open>fetchGroupData\<close> is memoised on \<^verbatim>\<open>groupId\<close>, \<^verbatim>\<open>navigate\<close> and
  \<^verbatim>\<open>API_URL\<close>, and is a new function when one of them changes, as when the route leads
  to another group. The fetch effect depends on \<^verbatim>\<open>fetchGroupData\<close>; the socket effect,
  declared after it, on \<^verbatim>\<open>groupId\<close>, \<^verbatim>\<open>fetchGroupData\<close> and \<^verbatim>\<open>currentUserId\<close>, the
  identifier of the user that \<^verbatim>\<open>getAuthUser\<close> reads from the stores at every render. On
  mount both effects run; after a render React runs the cleanups of the effects whose
  dependencies changed, then these effects in the order of declaration. So a new
  \<^verbatim>\<open>fetchGroupData\<close> runs both effects, and a change of \<^verbatim>\<open>currentUserId\<close> alone runs the
  socket effect alone.
\<close>

datatype trigger = Mount | FetchGroupDataChanged | CurrentUserIdChanged

definition runEffects :: "trigger \<Rightarrow> env \<Rightarrow> view \<Rightarrow> view \<times> action list" where
  "runEffects t en v =
     (case t of
        Mount \<Rightarrow>
          (let (v1, a1) = fetchGroupData en v;
               (v2, a2) = socketEffect en v1
           in (v2, a1 @ a2))
      | FetchGroupDataChanged \<Rightarrow>
          (let (v1, a1) = fetchGroupData en v;
               (v2, a2) = socketEffect en v1
           in (v2, socketCleanup v @ a1 @ a2))
      | CurrentUserIdChanged \<Rightarrow>
          (let (v2, a2) = socketEffect en v
           in (v2, socketCleanup v @ a2)))"

section \<open>Example inputs\<close>

text \<open>
  A dinner of 100 that Alice paid and three members split; a taxi of 50 that Alice paid
  and whose split-among list is empty; a fee of 0.25 that Alice paid and two members
  split; a coffee of 0.10 and a tea of 0.20 that Alice paid for Bob, and a lunch of 0.30
  that Bob paid for Alice.
\<close>

definition alice :: user where
  "alice = \<lparr>user_id = ''u-alice'', user_name = ''Alice'', user_email = ''alice@example.org''\<rparr>"

definition dinner :: expense where
  "dinner = \<lparr>expense_id = ''e-dinner'', description = ''dinner'', amount = literal 100,
     paidBy = Some (Populated alice),
     splitAmong = [Populated alice, BareId ''u-bob'', BareId ''u-carol''],
     createdAt = ''2024-05-01T19:00:00.000Z''\<rparr>"

definition taxi :: expense where
  "taxi = \<lparr>expense_id = ''e-taxi'', description = ''taxi'', amount = literal 50,
     paidBy = Some (BareId ''u-alice''), splitAmong = [],
     createdAt = ''2024-05-01T23:00:00.000Z''\<rparr>"

definition fee :: expense where
  "fee = \<lparr>expense_id = ''e-fee'', description = ''fee'', amount = literal (25 / 100),
     paidBy = Some (BareId ''u-alice''), splitAmong = [Populated alice, BareId ''u-bob''],
     createdAt = ''2024-05-02T08:00:00.000Z''\<rparr>"

definition coffee :: expense where
  "coffee = \<lparr>expense_id = ''e-coffee'', description = ''coffee'', amount = literal (10 / 100),
     paidBy = Some (Populated alice), splitAmong = [BareId ''u-bob''],
     createdAt = ''2024-05-03T08:00:00.000Z''\<rparr>"

definition tea :: expense where
  "tea = \<lparr>expense_id = ''e-tea'', description = ''tea'', amount = literal (20 / 100),
     paidBy = Some (Populated alice), splitAmong = [BareId ''u-bob''],
     createdAt = ''2024-05-03T09:00:00.000Z''\<rparr>"

definition lunch :: expense where
  "lunch = \<lparr>expense_id = ''e-lunch'', description = ''lunch'', amount = literal (30 / 100),
     paidBy = Some (BareId ''u-bob''), splitAmong = [Populated alice],
     createdAt = ''2024-05-03T12:00:00.000Z''\<rparr>"

definition trip :: "expense list option \<Rightarrow> group" where
  "trip es = \<lparr>group_id = ''g-trip'', group_name = ''Trip'', members = [alice],
     expenses = es, messages = [], invites = None\<rparr>"

text \<open>
  An environment with a token in the session store and one with both stores empty; the
  view before the first fetch has answered, and the view with the trip loaded and its
  listeners registered.
\<close>

definition signed_in :: env where
  "signed_in = \<lparr>store = \<lparr>sessionStorage = [''token'' \<mapsto> ''jwt-1''], localStorage = Map.empty\<rparr>,
     socket_connected = False, groupId = ''g-trip''\<rparr>"

definition signed_out :: env where
  "signed_out = \<lparr>store = \<lparr>sessionStorage = Map.empty, localStorage = Map.empty\<rparr>,
     socket_connected = False, groupId = ''g-trip''\<rparr>"

definition unloaded :: view where
  "unloaded = \<lparr>view_group = None, loading = True, subscribed = False\<rparr>"

definition joined :: view where
  "joined = \<lparr>view_group = Some (trip (Some [dinner])), loading = False, subscribed = True\<rparr>"

section \<open>Rounding to binary64\<close>

lemma quantum_pos: "0 < quantum x"
  by (simp add: quantum_def)

lemma ilog2_lower:
  assumes "0 < x"
  shows "2 powi (ilog2 x) \<le> x"
proof -
  obtain a b where ab: "quotient_of x = (a, b)" by (cases "quotient_of x")
  then have b: "0 < b" by (rule quotient_of_denom_pos)
  from ab have x: "x = of_int a / of_int b" by (rule quotient_of_div)
  with assms b have a: "0 < a" by (simp add: zero_less_divide_iff)
  define d where "d = bitlen a - bitlen b"
  show ?thesis
  proof (cases "2 powi d \<le> x")
    case True
    then show ?thesis by (simp add: ilog2_def ab d_def)
  next
    case False
    from a have la: "1 \<le> bitlen a" using bitlen_eq_zero_iff [of a] bitlen_nonneg [of a] by linarith
    from b have lb: "1 \<le> bitlen b" using bitlen_eq_zero_iff [of b] bitlen_nonneg [of b] by linarith
    from bitlen_bounds [OF a] have "(2::int) ^ nat (bitlen a - 1) \<le> a" by simp
    then have "(of_int ((2::int) ^ nat (bitlen a - 1)) :: rat) \<le> of_int a" by (simp only: of_int_le_iff)
    then have num: "(2::rat) ^ nat (bitlen a - 1) \<le> of_int a" by simp
    from bitlen_bounds [OF b] have "b < (2::int) ^ nat (bitlen b)" by simp
    then have "(of_int b :: rat) < of_int ((2::int) ^ nat (bitlen b))" by (simp only: of_int_less_iff)
    then have den: "(of_int b :: rat) < 2 ^ nat (bitlen b)" by simp
    have "d - 1 = (bitlen a - 1) - bitlen b" by (simp add: d_def)
    moreover have "(2::rat) powi ((bitlen a - 1) - bitlen b) = 2 powi (bitlen a - 1) / 2 powi (bitlen b)"
      by (rule power_int_diff) simp
    ultimately have "(2::rat) powi (d - 1) = 2 powi (bitlen a - 1) / 2 powi (bitlen b)"
      by (simp only:)
    also have "\<dots> = 2 ^ nat (bitlen a - 1) / 2 ^ nat (bitlen b)"
      using la lb by (simp add: power_int_def)
    also have "\<dots> \<le> of_int a / 2 ^ nat (bitlen b)"
      using num by (simp add: divide_right_mono)
    also have "\<dots> \<le> of_int a / of_int b"
      using den a b by (intro divide_left_mono) simp_all
    finally have "(2::rat) powi (d - 1) \<le> x" by (simp only: x)
    with False show ?thesis by (simp add: ilog2_def ab d_def)
  qed
qed

lemma ilog2_upper:
  assumes "0 < x"
  shows "x < 2 powi (ilog2 x + 1)"
proof -
  obtain a b where ab: "quotient_of x = (a, b)" by (cases "quotient_of x")
  then have b: "0 < b" by (rule quotient_of_denom_pos)
  from ab have x: "x = of_int a / of_int b" by (rule quotient_of_div)
  with assms b have a: "0 < a" by (simp add: zero_less_divide_iff)
  define d where "d = bitlen a - bitlen b"
  show ?thesis
  proof (cases "2 powi d \<le> x")
    case True
    from a have la: "1 \<le> bitlen a" using bitlen_eq_zero_iff [of a] bitlen_nonneg [of a] by linarith
    from b have lb: "1 \<le> bitlen b" using bitlen_eq_zero_iff [of b] bitlen_nonneg [of b] by linarith
    from bitlen_bounds [OF a] have "a < (2::int) ^ nat (bitlen a)" by simp
    then have "(of_int a :: rat) < of_int ((2::int) ^ nat (bitlen a))" by (simp only: of_int_less_iff)
    then have num: "(of_int a :: rat) < 2 ^ nat (bitlen a)" by simp
    from bitlen_bounds [OF b] have "(2::int) ^ nat (bitlen b - 1) \<le> b" by simp
    then have "(of_int ((2::int) ^ nat (bitlen b - 1)) :: rat) \<le> of_int b" by (simp only: of_int_le_iff)
    then have den: "(2::rat) ^ nat (bitlen b - 1) \<le> of_int b" by simp
    have "x = of_int a / of_int b" by (rule x)
    also have "\<dots> < 2 ^ nat (bitlen a) / of_int b"
      using num b by (simp add: divide_strict_right_mono)
    also have "\<dots> \<le> 2 ^ nat (bitlen a) / 2 ^ nat (bitlen b - 1)"
      using den b by (intro divide_left_mono) simp_all
    also have "\<dots> = 2 powi (bitlen a) / 2 powi (bitlen b - 1)"
      using la lb by (simp add: power_int_def)
    also have "\<dots> = 2 powi (bitlen a - (bitlen b - 1))"
      by (rule power_int_diff [symmetric]) simp
    also have "bitlen a - (bitlen b - 1) = d + 1" by (simp add: d_def)
    finally have "x < 2 powi (d + 1)" .
    with True show ?thesis by (simp add: ilog2_def ab d_def)
  next
    case False
    then have "x < 2 powi d" by simp
    with False show ?thesis by (simp add: ilog2_def ab d_def)
  qed
qed

lemma round_even_error: "\<bar>of_int (round_even y) - y\<bar> \<le> 1 / 2"
proof -
  have "of_int \<lfloor>y\<rfloor> \<le> y" "y < of_int \<lfloor>y\<rfloor> + 1" by linarith+
  then show ?thesis by (auto simp: round_even_def Let_def)
qed

lemma round_even_nonneg: "0 \<le> y \<Longrightarrow> 0 \<le> round_even y"
  by (auto simp: round_even_def Let_def)

lemma round_even_ge_one: "1 \<le> y \<Longrightarrow> 1 \<le> round_even y"
proof -
  assume "1 \<le> y"
  then have "1 \<le> \<lfloor>y\<rfloor>" by (simp add: le_floor_iff)
  then show ?thesis by (auto simp: round_even_def Let_def)
qed

lemma round_even_minus: "round_even (- y) = - round_even y"
proof (cases "of_int \<lfloor>y\<rfloor> = y")
  case True
  then obtain k :: int where "y = of_int k" by (metis)
  then show ?thesis by (simp add: round_even_def del: of_int_minus add: of_int_minus [symmetric])
next
  case False
  then have lt: "of_int \<lfloor>y\<rfloor> < y" by linarith
  have "y < of_int \<lfloor>y\<rfloor> + 1" by linarith
  with lt have fl: "\<lfloor>- y\<rfloor> = - \<lfloor>y\<rfloor> - 1" by (intro floor_unique) simp_all
  show ?thesis
    using lt by (auto simp: round_even_def Let_def fl)
qed

lemma quantum_minus: "quantum (- x) = quantum x"
  by (simp add: quantum_def)

lemma round_binary64_minus: "round_binary64 (- x) = js_neg (round_binary64 x)"
  by (simp add: round_binary64_def Let_def quantum_minus round_even_minus)

lemma round_binary64_error:
  assumes "round_binary64 x = Finite y"
  shows "\<bar>y - x\<bar> \<le> quantum x / 2"
proof (cases "x = 0")
  case True
  with assms show ?thesis using quantum_pos [of 0] by (simp add: round_binary64_def)
next
  case False
  let ?q = "quantum x"
  have q: "0 < ?q" by (rule quantum_pos)
  from assms False have y: "y = of_int (round_even (x / ?q)) * ?q"
    by (simp add: round_binary64_def Let_def split: if_splits)
  have "y - x = (of_int (round_even (x / ?q)) - x / ?q) * ?q"
    using q by (simp add: y left_diff_distrib)
  then have "\<bar>y - x\<bar> = \<bar>of_int (round_even (x / ?q)) - x / ?q\<bar> * ?q"
    using q by (simp add: abs_mult)
  also have "\<dots> \<le> (1 / 2) * ?q"
    using q by (intro mult_right_mono round_even_error) simp
  finally show ?thesis by simp
qed

lemma round_binary64_nonneg:
  assumes "0 \<le> x"
  shows "js_le (Finite 0) (round_binary64 x)"
proof (cases "x = 0")
  case True
  then show ?thesis by (simp add: round_binary64_def)
next
  case False
  with assms have "0 < x" by simp
  moreover from assms have "0 \<le> round_even (x / quantum x)"
    using quantum_pos [of x] by (intro round_even_nonneg) simp
  then have "0 \<le> (of_int (round_even (x / quantum x)) :: rat) * quantum x"
    using quantum_pos [of x] by simp
  ultimately show ?thesis
    by (simp add: round_binary64_def Let_def)
qed

lemma round_binary64_nonpos:
  assumes "x \<le> 0"
  shows "js_le (round_binary64 x) (Finite 0)"
proof -
  from assms have "js_le (Finite 0) (round_binary64 (- x))"
    by (intro round_binary64_nonneg) simp
  then show ?thesis
    by (cases "round_binary64 x") (simp_all add: round_binary64_minus)
qed

lemma two_powi_neg_le:
  assumes "7 \<le> n"
  shows "(2::rat) powi (- int n) \<le> 1 / 100"
proof -
  have "(100::rat) \<le> 2 ^ 7" by simp
  also have "\<dots> \<le> 2 ^ n" using assms by (intro power_increasing) simp_all
  finally have "(100::rat) \<le> 2 ^ n" .
  then have "1 / (2::rat) ^ n \<le> 1 / 100"
    by (intro divide_left_mono) simp_all
  moreover have "(2::rat) powi (- int n) = 1 / 2 ^ n"
    by (simp add: power_int_minus divide_inverse)
  ultimately show ?thesis by (simp only:)
qed

lemma tiny_quantum: "(2::rat) powi (- 1074) \<le> 1 / 100"
proof -
  have "(7::nat) \<le> 1074" by simp
  then have "(2::rat) powi (- int 1074) \<le> 1 / 100" by (rule two_powi_neg_le)
  then show ?thesis by (simp only: of_nat_numeral)
qed

lemma quantum_le:
  assumes "x \<noteq> 0"
  shows "quantum x \<le> max \<bar>x\<bar> (2 powi (- 1074))"
proof (cases "- 1022 \<le> ilog2 \<bar>x\<bar>")
  case True
  then have "quantum x = 2 powi (ilog2 \<bar>x\<bar> - 52)" by (simp add: quantum_def max_def)
  also have "\<dots> \<le> 2 powi (ilog2 \<bar>x\<bar>)" by (intro power_int_increasing) simp_all
  also have "\<dots> \<le> \<bar>x\<bar>" using assms by (intro ilog2_lower) simp
  finally show ?thesis by simp
next
  case False
  then have "quantum x = 2 powi (- 1074)" by (simp add: quantum_def max_def)
  then show ?thesis by simp
qed

lemma round_binary64_pos:
  assumes "1 / 100 \<le> x"
  shows "js_lt (Finite 0) (round_binary64 x)"
proof -
  from assms have pos: "0 < x" by simp
  let ?q = "quantum x"
  have q: "0 < ?q" by (rule quantum_pos)
  from pos have "?q \<le> max \<bar>x\<bar> (2 powi (- 1074))" by (intro quantum_le) simp
  with assms tiny_quantum have "?q \<le> x" by (simp add: max_def split: if_splits)
  with q have "1 \<le> x / ?q" by (simp add: le_divide_eq)
  then have "1 \<le> round_even (x / ?q)" by (rule round_even_ge_one)
  then have "(1::rat) \<le> of_int (round_even (x / ?q))" by simp
  with q have "0 < (of_int (round_even (x / ?q)) :: rat) * ?q" by (simp add: zero_less_mult_iff)
  with pos show ?thesis by (simp add: round_binary64_def Let_def)
qed

lemma round_binary64_neg:
  assumes "x \<le> - (1 / 100)"
  shows "js_lt (round_binary64 x) (Finite 0)"
proof -
  from assms have "js_lt (Finite 0) (round_binary64 (- x))"
    by (intro round_binary64_pos) simp
  then show ?thesis
    by (cases "round_binary64 x") (simp_all add: round_binary64_minus)
qed

lemma ilog2_zero: "ilog2 0 < 1024"
  by code_simp

lemma ilog2_below:
  assumes "0 < y" "y < 2 powi 1024"
  shows "ilog2 y < 1024"
proof (rule ccontr)
  assume "\<not> ilog2 y < 1024"
  then have "1024 \<le> ilog2 y" by simp
  then have "(2::rat) powi 1024 \<le> 2 powi (ilog2 y)" by (intro power_int_increasing) simp_all
  also have "\<dots> \<le> y" using assms(1) by (rule ilog2_lower)
  finally have "(2::rat) powi 1024 \<le> y" .
  with assms(2) show False by linarith
qed

lemma round_binary64_finite:
  assumes "\<bar>x\<bar> \<le> 2 powi 1023"
  shows "\<exists>y. round_binary64 x = Finite y"
proof (cases "x = 0")
  case True
  then show ?thesis by (simp add: round_binary64_def)
next
  case False
  define B :: rat where "B = 2 powi 1023"
  let ?q = "quantum x"
  let ?y = "of_int (round_even (x / ?q)) * ?q"
  have q: "0 < ?q" by (rule quantum_pos)
  have "(2::rat) powi 0 \<le> 2 powi 1023" by (intro power_int_increasing) simp_all
  then have B1: "1 \<le> B" by (simp only: B_def power_int_0_right)
  have "(2::rat) powi (1023 + 1) = 2 powi 1023 * 2 powi 1" by (rule power_int_add) simp
  then have B2: "(2::rat) powi 1024 = 2 * B" by (simp add: B_def)
  from assms have xB: "\<bar>x\<bar> \<le> B" by (simp only: B_def)
  have "(2::rat) powi (- 1074) \<le> 1" using tiny_quantum by simp
  moreover from False have "?q \<le> max \<bar>x\<bar> (2 powi (- 1074))" by (rule quantum_le)
  ultimately have qb: "?q \<le> B" using xB B1 by (simp add: max_def split: if_splits)
  have "?y - x = (of_int (round_even (x / ?q)) - x / ?q) * ?q"
    using q by (simp add: left_diff_distrib)
  then have "\<bar>?y - x\<bar> = \<bar>of_int (round_even (x / ?q)) - x / ?q\<bar> * ?q"
    using q by (simp add: abs_mult)
  also have "\<dots> \<le> (1 / 2) * ?q"
    using q by (intro mult_right_mono round_even_error) simp
  finally have "\<bar>?y - x\<bar> \<le> (1 / 2) * ?q" .
  with xB qb B1 have "\<bar>?y\<bar> < 2 * B" by linarith
  then have small: "\<bar>?y\<bar> < 2 powi 1024" by (simp only: B2)
  have "ilog2 \<bar>?y\<bar> < 1024"
  proof (cases "?y = 0")
    case True
    then have "\<bar>?y\<bar> = 0" by (simp only: abs_zero)
    then show ?thesis using ilog2_zero by (simp only:)
  next
    case False
    then have "0 < \<bar>?y\<bar>" by simp
    then show ?thesis using small by (rule ilog2_below)
  qed
  with False show ?thesis by (simp add: round_binary64_def Let_def)
qed

text \<open>
  A value that the rounding returns is a binary64 number: rounding it again returns it.
\<close>

lemma round_even_of_int: "round_even (of_int k) = k"
  by (simp add: round_even_def)

lemma round_even_le:
  assumes "y \<le> of_int m"
  shows "round_even y \<le> m"
proof -
  have "\<lfloor>y\<rfloor> \<le> m" using assms by (simp add: floor_le_iff)
  show ?thesis
  proof (cases "\<lfloor>y\<rfloor> = m")
    case True
    with assms have "y - of_int \<lfloor>y\<rfloor> \<le> 0" by simp
    then show ?thesis using True by (simp add: round_even_def Let_def)
  next
    case False
    with \<open>\<lfloor>y\<rfloor> \<le> m\<close> have "\<lfloor>y\<rfloor> + 1 \<le> m" by simp
    then show ?thesis by (auto simp: round_even_def Let_def)
  qed
qed

lemma round_even_abs_le:
  assumes "\<bar>y\<bar> \<le> of_int m"
  shows "\<bar>round_even y\<bar> \<le> m"
proof -
  from assms have "y \<le> of_int m" "- y \<le> of_int m" by linarith+
  then have "round_even y \<le> m" "round_even (- y) \<le> m" by (simp_all add: round_even_le)
  then show ?thesis by (simp add: round_even_minus)
qed

lemma quantum_as_power: "quantum x = 2 powi (max (ilog2 \<bar>x\<bar> - 52) (- 1074))"
proof -
  have "max (ilog2 \<bar>x\<bar>) (- 1022) - 52 = max (ilog2 \<bar>x\<bar> - 52) (- 1074)" by simp
  then show ?thesis by (simp only: quantum_def)
qed

lemma powi_le_cancel:
  assumes "(2::rat) powi a \<le> 2 powi b"
  shows "a \<le> b"
proof (rule ccontr)
  assume "\<not> a \<le> b"
  then have "b < a" by simp
  then have "(2::rat) powi b < 2 powi a" by (intro power_int_strict_increasing) simp_all
  with assms show False by simp
qed

lemma round_binary64_idem:
  assumes "round_binary64 x = Finite y"
  shows "round_binary64 y = Finite y"
proof (cases "y = 0")
  case True
  then show ?thesis by (simp add: round_binary64_def)
next
  case y0: False
  with assms have x0: "x \<noteq> 0" by (auto simp: round_binary64_def)
  define j where "j = max (ilog2 \<bar>x\<bar> - 52) (- 1074)"
  define k where "k = round_even (x / 2 powi j)"
  have q: "quantum x = 2 powi j" by (simp only: quantum_as_power j_def)
  from assms x0 have y: "y = of_int k * 2 powi j"
    and fin: "\<not> 1024 \<le> ilog2 \<bar>y\<bar>"
    by (simp_all add: round_binary64_def Let_def q k_def split: if_splits)
  have pj: "(0::rat) < 2 powi j" by simp
  from x0 have "\<bar>x\<bar> < 2 powi (ilog2 \<bar>x\<bar> + 1)" by (intro ilog2_upper) simp
  also have "\<dots> \<le> 2 powi (j + 53)" by (intro power_int_increasing) (simp_all add: j_def)
  also have "\<dots> = 2 powi j * 2 powi 53" by (rule power_int_add) simp
  finally have "\<bar>x\<bar> / 2 powi j < 2 powi 53" using pj by (simp add: divide_less_eq mult.commute)
  then have "\<bar>x / 2 powi j\<bar> \<le> of_int (2 ^ 53)" using pj by (simp add: abs_divide)
  then have kb: "\<bar>k\<bar> \<le> 2 ^ 53" unfolding k_def by (rule round_even_abs_le)
  define j' where "j' = max (ilog2 \<bar>y\<bar> - 52) (- 1074)"
  have q': "quantum y = 2 powi j'" by (simp only: quantum_as_power j'_def)
  have ay: "\<bar>y\<bar> = of_int \<bar>k\<bar> * 2 powi j" by (simp add: y abs_mult)
  from kb have "(of_int \<bar>k\<bar> :: rat) \<le> of_int (2 ^ 53)" by (simp only: of_int_le_iff)
  then have "(of_int \<bar>k\<bar> :: rat) \<le> 2 powi 53" by simp
  then have "\<bar>y\<bar> \<le> 2 powi 53 * 2 powi j" unfolding ay using pj by (intro mult_right_mono) simp_all
  also have "\<dots> = 2 powi (53 + j)" by (rule power_int_add [symmetric]) simp
  finally have yub: "\<bar>y\<bar> \<le> 2 powi (53 + j)" .
  from y0 have "2 powi (ilog2 \<bar>y\<bar>) \<le> \<bar>y\<bar>" by (intro ilog2_lower) simp
  with yub have "(2::rat) powi (ilog2 \<bar>y\<bar>) \<le> 2 powi (53 + j)" by linarith
  then have e': "ilog2 \<bar>y\<bar> \<le> 53 + j" by (rule powi_le_cancel)
  have jlow: "- 1074 \<le> j" by (simp add: j_def)
  from e' jlow have j'le: "j' \<le> j + 1" by (simp add: j'_def)
  have int: "\<exists>m::int. y / 2 powi j' = of_int m"
  proof (cases "j' \<le> j")
    case True
    then obtain n where n: "j = j' + int n" by (metis zle_iff_zadd)
    have "(2::rat) powi j = 2 powi j' * 2 powi (int n)" unfolding n by (rule power_int_add) simp
    then have "y / 2 powi j' = of_int k * 2 ^ n" by (simp add: y)
    also have "\<dots> = of_int (k * 2 ^ n)" by simp
    finally show ?thesis by blast
  next
    case False
    with j'le have j': "j' = j + 1" by simp
    then have "ilog2 \<bar>y\<bar> - 52 = j + 1" using jlow by (simp add: j'_def max_def split: if_splits)
    then have "ilog2 \<bar>y\<bar> = 53 + j" by simp
    with \<open>2 powi (ilog2 \<bar>y\<bar>) \<le> \<bar>y\<bar>\<close> yub have "\<bar>y\<bar> = 2 powi (53 + j)" by simp
    also have "\<dots> = 2 powi 53 * 2 powi j" by (rule power_int_add) simp
    finally have "of_int \<bar>k\<bar> * (2::rat) powi j = 2 powi 53 * 2 powi j" by (simp only: ay)
    then have "(of_int \<bar>k\<bar> :: rat) = 2 powi 53" using pj by simp
    then have "(of_int \<bar>k\<bar> :: rat) = of_int (2 ^ 53)" by simp
    then have ak: "\<bar>k\<bar> = 2 ^ 53" by (simp only: of_int_eq_iff)
    then obtain m :: int where m: "k = 2 * m" by (cases "0 \<le> k") (auto intro: that [of "2 ^ 52"] that [of "- (2 ^ 52)"])
    have "(2::rat) powi (j + 1) = 2 powi j * 2 powi 1" by (rule power_int_add) simp
    then have "y / 2 powi j' = of_int m" by (simp add: y j' m)
    then show ?thesis by blast
  qed
  then obtain m :: int where m: "y / 2 powi j' = of_int m" by blast
  have pj': "(0::rat) < 2 powi j'" by simp
  from m pj' have "of_int m * 2 powi j' = y" by (simp add: divide_eq_eq)
  with m have "of_int (round_even (y / quantum y)) * quantum y = y"
    by (simp add: q' round_even_of_int)
  with y0 fin show ?thesis by (simp add: round_binary64_def Let_def)
qed

lemma js_add_zero_binary64:
  assumes "round_binary64 x = Finite y"
  shows "js_add (Finite 0) (Finite y) = Finite y"
  using round_binary64_idem [OF assms] by simp

section \<open>Rounding to two decimals\<close>

lemma closest_integer_round: "closest_integer y = round y"
proof (cases "y - of_int \<lfloor>y\<rfloor> < 1 / 2")
  case True
  have "of_int \<lfloor>y\<rfloor> \<le> y" by linarith
  with True have "\<lfloor>y + 1 / 2\<rfloor> = \<lfloor>y\<rfloor>" by (intro floor_unique) linarith+
  with True show ?thesis by (simp add: closest_integer_def round_def)
next
  case False
  have "y < of_int \<lfloor>y\<rfloor> + 1" by linarith
  with False have "of_int (\<lfloor>y\<rfloor> + 1) \<le> y + 1 / 2" "y + 1 / 2 < of_int (\<lfloor>y\<rfloor> + 1) + 1"
    by simp_all
  then have "\<lfloor>y + 1 / 2\<rfloor> = \<lfloor>y\<rfloor> + 1" by (rule floor_unique)
  with False show ?thesis by (simp add: closest_integer_def round_def)
qed

lemma parseFloat_toFixed2: "parseFloat (toFixed2 x) = round2 x"
proof (cases x)
  case (Finite r)
  show ?thesis
  proof (cases "10 ^ 21 \<le> \<bar>r\<bar>")
    case True
    with Finite show ?thesis by (simp add: toFixed2_def round2_def)
  next
    case False
    have "(if r < 0 then - (of_int (round (\<bar>r\<bar> * 100)) / 100) else of_int (round (\<bar>r\<bar> * 100)) / 100)
        = two_decimals r"
      by (simp add: two_decimals_def sgn_if)
    with False Finite show ?thesis
      by (simp add: toFixed2_def round2_def Let_def closest_integer_round)
  qed
qed (simp_all add: toFixed2_def round2_def)

lemma two_decimals_error: "\<bar>two_decimals x - x\<bar> \<le> 5 / 1000"
proof -
  have "\<bar>of_int (round (\<bar>x\<bar> * 100)) - \<bar>x\<bar> * 100\<bar> \<le> 1 / 2"
    by (rule of_int_round_abs_le)
  then have "\<bar>(of_int (round (\<bar>x\<bar> * 100)) - \<bar>x\<bar> * 100) / 100\<bar> \<le> (1 / 2) / 100"
    by (simp only: abs_divide) simp
  then have a: "\<bar>of_int (round (\<bar>x\<bar> * 100)) / 100 - \<bar>x\<bar>\<bar> \<le> 5 / 1000"
    by (simp add: diff_divide_distrib)
  have "two_decimals x - x = sgn x * (of_int (round (\<bar>x\<bar> * 100)) / 100 - \<bar>x\<bar>)"
    by (simp add: two_decimals_def right_diff_distrib sgn_if)
  then have "\<bar>two_decimals x - x\<bar> = \<bar>sgn x\<bar> * \<bar>of_int (round (\<bar>x\<bar> * 100)) / 100 - \<bar>x\<bar>\<bar>"
    by (simp only: abs_mult)
  also have "\<dots> \<le> 1 * \<bar>of_int (round (\<bar>x\<bar> * 100)) / 100 - \<bar>x\<bar>\<bar>"
    by (intro mult_right_mono) (simp_all add: sgn_if)
  finally show ?thesis using a by simp
qed

lemma two_decimals_ge:
  assumes "5 / 1000 \<le> x"
  shows "1 / 100 \<le> two_decimals x"
proof -
  from assms have "1 \<le> \<bar>x\<bar> * 100 + 1 / 2" by simp
  then have "1 \<le> round (\<bar>x\<bar> * 100)" unfolding round_def by (simp add: le_floor_iff)
  then have "(1::rat) \<le> of_int (round (\<bar>x\<bar> * 100))" by simp
  with assms show ?thesis by (simp add: two_decimals_def sgn_if le_divide_eq)
qed

lemma two_decimals_small:
  assumes "\<bar>x\<bar> < 5 / 1000"
  shows "two_decimals x = 0"
proof -
  from assms have "\<bar>x\<bar> * 100 + 1 / 2 < 1" by simp
  moreover have "0 \<le> \<bar>x\<bar> * 100 + 1 / 2" by simp
  ultimately have "round (\<bar>x\<bar> * 100) = 0" unfolding round_def by (intro floor_unique) simp_all
  then show ?thesis by (simp add: two_decimals_def)
qed

lemma two_decimals_minus: "two_decimals (- x) = - two_decimals x"
  by (simp add: two_decimals_def sgn_minus)

lemma two_decimals_le:
  assumes "x \<le> - (5 / 1000)"
  shows "two_decimals x \<le> - (1 / 100)"
  using two_decimals_ge [of "- x"] assms by (simp add: two_decimals_minus)

lemma js_lt_asym: "js_lt a b \<Longrightarrow> \<not> js_lt b a"
  by (cases a; cases b) simp_all

lemma js_lt_not_eq: "js_lt a b \<Longrightarrow> a \<noteq> b"
  by (cases a; cases b) simp_all

lemma round2_pos_iff: "js_lt (Finite 0) (round2 d) \<longleftrightarrow> js_le (Finite (5 / 1000)) d"
proof (cases d)
  case (Finite r)
  show ?thesis
  proof (cases "\<bar>r\<bar> < 10 ^ 21")
    case small: True
    consider "5 / 1000 \<le> r" | "\<bar>r\<bar> < 5 / 1000" | "r \<le> - (5 / 1000)" by linarith
    then show ?thesis
    proof cases
      case 1
      then have "js_lt (Finite 0) (round_binary64 (two_decimals r))"
        by (intro round_binary64_pos two_decimals_ge)
      with 1 small Finite show ?thesis by (simp add: round2_def)
    next
      case 2
      then have "round_binary64 (two_decimals r) = Finite 0"
        by (simp add: two_decimals_small round_binary64_def)
      with 2 small Finite show ?thesis by (simp add: round2_def)
    next
      case 3
      then have "js_lt (round_binary64 (two_decimals r)) (Finite 0)"
        by (intro round_binary64_neg two_decimals_le)
      then have "\<not> js_lt (Finite 0) (round_binary64 (two_decimals r))" by (rule js_lt_asym)
      with 3 small Finite show ?thesis by (simp add: round2_def)
    qed
  next
    case False
    with Finite show ?thesis by (auto simp: round2_def)
  qed
qed (simp_all add: round2_def)

lemma round2_neg_iff: "js_lt (round2 d) (Finite 0) \<longleftrightarrow> js_le d (Finite (- (5 / 1000)))"
proof (cases d)
  case (Finite r)
  show ?thesis
  proof (cases "\<bar>r\<bar> < 10 ^ 21")
    case small: True
    consider "5 / 1000 \<le> r" | "\<bar>r\<bar> < 5 / 1000" | "r \<le> - (5 / 1000)" by linarith
    then show ?thesis
    proof cases
      case 1
      then have "js_lt (Finite 0) (round_binary64 (two_decimals r))"
        by (intro round_binary64_pos two_decimals_ge)
      then have "\<not> js_lt (round_binary64 (two_decimals r)) (Finite 0)" by (rule js_lt_asym)
      with 1 small Finite show ?thesis by (simp add: round2_def)
    next
      case 2
      then have "round_binary64 (two_decimals r) = Finite 0"
        by (simp add: two_decimals_small round_binary64_def)
      with 2 small Finite show ?thesis by (simp add: round2_def)
    next
      case 3
      then have "js_lt (round_binary64 (two_decimals r)) (Finite 0)"
        by (intro round_binary64_neg two_decimals_le)
      with 3 small Finite show ?thesis by (simp add: round2_def)
    qed
  next
    case False
    with Finite show ?thesis by (auto simp: round2_def)
  qed
qed (simp_all add: round2_def)

lemma round2_zero_iff:
  "round2 d = Finite 0 \<longleftrightarrow> js_lt (Finite (- (5 / 1000))) d \<and> js_lt d (Finite (5 / 1000))"
proof (cases d)
  case (Finite r)
  show ?thesis
  proof (cases "\<bar>r\<bar> < 10 ^ 21")
    case small: True
    consider "5 / 1000 \<le> r" | "\<bar>r\<bar> < 5 / 1000" | "r \<le> - (5 / 1000)" by linarith
    then show ?thesis
    proof cases
      case 1
      then have "js_lt (Finite 0) (round_binary64 (two_decimals r))"
        by (intro round_binary64_pos two_decimals_ge)
      then have "Finite 0 \<noteq> round_binary64 (two_decimals r)" by (rule js_lt_not_eq)
      with 1 small Finite show ?thesis by (auto simp: round2_def)
    next
      case 2
      then have "round_binary64 (two_decimals r) = Finite 0"
        by (simp add: two_decimals_small round_binary64_def)
      moreover from 2 have "- (5 / 1000) < r \<and> r < 5 / 1000" by linarith
      ultimately show ?thesis using small Finite by (simp add: round2_def)
    next
      case 3
      then have "js_lt (round_binary64 (two_decimals r)) (Finite 0)"
        by (intro round_binary64_neg two_decimals_le)
      then have "round_binary64 (two_decimals r) \<noteq> Finite 0" by (rule js_lt_not_eq)
      with 3 small Finite show ?thesis by (auto simp: round2_def)
    qed
  next
    case False
    with Finite show ?thesis by (auto simp: round2_def)
  qed
qed (simp_all add: round2_def)

lemma round_nonneg: "0 \<le> (y::rat) \<Longrightarrow> 0 \<le> round y"
  unfolding round_def by (simp add: zero_le_floor)

lemma two_decimals_nonneg: "0 \<le> x \<Longrightarrow> 0 \<le> two_decimals x"
  by (simp add: two_decimals_def sgn_if round_nonneg)

lemma two_decimals_nonpos: "x \<le> 0 \<Longrightarrow> two_decimals x \<le> 0"
  using two_decimals_nonneg [of "- x"] by (simp add: two_decimals_minus)

lemma round2_nonneg:
  assumes "js_le (Finite 0) d"
  shows "js_le (Finite 0) (round2 d)"
proof (cases d)
  case (Finite r)
  with assms have r: "0 \<le> r" by simp
  show ?thesis
  proof (cases "\<bar>r\<bar> < 10 ^ 21")
    case True
    from r have "0 \<le> two_decimals r" by (rule two_decimals_nonneg)
    then have "js_le (Finite 0) (round_binary64 (two_decimals r))"
      by (rule round_binary64_nonneg)
    with True Finite show ?thesis by (simp add: round2_def)
  next
    case False
    with r Finite show ?thesis by (simp add: round2_def)
  qed
qed (use assms in \<open>simp_all add: round2_def\<close>)

lemma round2_nonpos:
  assumes "js_le d (Finite 0)"
  shows "js_le (round2 d) (Finite 0)"
proof (cases d)
  case (Finite r)
  with assms have r: "r \<le> 0" by simp
  show ?thesis
  proof (cases "\<bar>r\<bar> < 10 ^ 21")
    case True
    from r have "two_decimals r \<le> 0" by (rule two_decimals_nonpos)
    then have "js_le (round_binary64 (two_decimals r)) (Finite 0)"
      by (rule round_binary64_nonpos)
    with True Finite show ?thesis by (simp add: round2_def)
  next
    case False
    with r Finite show ?thesis by (simp add: round2_def)
  qed
qed (use assms in \<open>simp_all add: round2_def\<close>)

lemma below_overflow: "(10::rat) ^ 21 + 1 \<le> 2 powi 1023"
proof -
  have "(10::rat) ^ 21 + 1 \<le> 2 ^ 70" by simp
  also have "\<dots> = 2 powi 70" by (simp only: power_int_numeral)
  also have "\<dots> \<le> 2 powi 1023" by (intro power_int_increasing) simp_all
  finally show ?thesis .
qed

lemma one_below_overflow: "(1::rat) \<le> 2 powi 1023"
proof -
  have "(2::rat) powi 0 \<le> 2 powi 1023" by (intro power_int_increasing) simp_all
  then show ?thesis by (simp only: power_int_0_right)
qed

lemma round2_finite_error:
  "\<exists>y. round2 (Finite x) = Finite y \<and> \<bar>y - x\<bar> \<le> 5 / 1000 + quantum (two_decimals x) / 2"
proof (cases "\<bar>x\<bar> < 10 ^ 21")
  case True
  have "\<bar>two_decimals x\<bar> \<le> \<bar>x\<bar> + 5 / 1000"
    using two_decimals_error [of x] by linarith
  with True below_overflow have "\<bar>two_decimals x\<bar> \<le> 2 powi 1023" by linarith
  then obtain y where y: "round_binary64 (two_decimals x) = Finite y"
    using round_binary64_finite by blast
  then have "\<bar>y - two_decimals x\<bar> \<le> quantum (two_decimals x) / 2"
    by (rule round_binary64_error)
  with two_decimals_error [of x] have "\<bar>y - x\<bar> \<le> 5 / 1000 + quantum (two_decimals x) / 2"
    by linarith
  with True y show ?thesis by (simp add: round2_def)
next
  case False
  then show ?thesis using quantum_pos [of "two_decimals x"] by (simp add: round2_def)
qed

lemma round2_binary64:
  assumes "round_binary64 a = Finite x" and "round2 (Finite x) = Finite y"
  shows "round_binary64 y = Finite y"
proof (cases "\<bar>x\<bar> < 10 ^ 21")
  case True
  with assms(2) have "round_binary64 (two_decimals x) = Finite y" by (simp add: round2_def)
  then show ?thesis by (rule round_binary64_idem)
next
  case False
  with assms(2) have "y = x" by (simp add: round2_def)
  with assms(1) show ?thesis by (simp add: round_binary64_idem)
qed

section \<open>The arithmetic on examples\<close>

lemma binary64_examples:
  "literal (1 / 10) = Finite (3602879701896397 / 2 ^ 55)"
  "js_add (literal (1 / 10)) (literal (2 / 10)) = Finite (1351079888211149 / 2 ^ 52)"
  "literal (3 / 10) = Finite (5404319552844595 / 2 ^ 54)"
  "js_add (literal (10 ^ 16)) (literal (1 / 100)) = literal (10 ^ 16)"
  "parseFloat (toFixed2 (literal (1005 / 1000))) = Finite 1"
  "parseFloat (toFixed2 (js_quotient (literal (3 / 100)) 2)) = literal (1 / 100)"
  "parseFloat (toFixed2 (js_quotient (literal (100)) 3)) = literal (3333 / 100)"
  "js_quotient (literal 1) 0 = PlusInfinity"
  by code_simp+

section \<open>The loop of the balance computation\<close>

lemma ref_matches_iff: "ref_matches m u \<longleftrightarrow> ref_id u = m"
  by (cases u) simp_all

lemma payer_matches_iff: "payer_matches m e \<longleftrightarrow> map_option ref_id (paidBy e) = Some m"
  by (simp add: payer_matches_def ref_matches_iff split: option.splits)

lemma list_ex_ref_matches: "list_ex (ref_matches m) xs \<longleftrightarrow> m \<in> set (map ref_id xs)"
  by (auto simp: list_ex_iff ref_matches_iff)

lemma individualShare_nonempty:
  "splitAmong e \<noteq> [] \<Longrightarrow>
     individualShare e = Some (round2 (js_quotient (amount e) (length (splitAmong e))))"
  by (simp add: individualShare_def js_divide_def parseFloat_toFixed2)

lemma forEach_body_eq:
  "forEach_body m e (p, s) =
     Some (foldl js_add p (map amount
             (filter (\<lambda>e. splitAmong e \<noteq> [] \<and> map_option ref_id (paidBy e) = Some m) [e])),
           foldl js_add s (map (\<lambda>e. round2 (js_quotient (amount e) (length (splitAmong e))))
             (filter (\<lambda>e. splitAmong e \<noteq> [] \<and> m \<in> set (map ref_id (splitAmong e))) [e])))"
proof (cases "splitAmong e = []")
  case True
  then show ?thesis by (simp add: forEach_body_def)
next
  case False
  then show ?thesis
    by (auto simp: forEach_body_def Let_def individualShare_nonempty payer_matches_iff
          list_ex_ref_matches)
qed

lemma forEach_eq:
  "forEach m es (p, s) =
     Some (foldl js_add p (map amount
             (filter (\<lambda>e. splitAmong e \<noteq> [] \<and> map_option ref_id (paidBy e) = Some m) es)),
           foldl js_add s (map (\<lambda>e. round2 (js_quotient (amount e) (length (splitAmong e))))
             (filter (\<lambda>e. splitAmong e \<noteq> [] \<and> m \<in> set (map ref_id (splitAmong e))) es)))"
proof (induction es arbitrary: p s)
  case Nil
  show ?case by simp
next
  case (Cons e es)
  show ?case
    by (simp only: forEach.simps forEach_body_eq option.case Cons.IH) auto
qed

lemma computeMemberBalance_list:
  "computeMemberBalance (Some (g\<lparr>expenses := Some es\<rparr>)) m =
     Some \<lparr>paid = paid_of_list m es, share = share_of_list m es,
           net = round2 (js_sub (paid_of_list m es) (share_of_list m es))\<rparr>"
  by (simp add: computeMemberBalance_def forEach_eq paid_of_list_def share_of_list_def
        js_sum_def parseFloat_toFixed2)

lemma round2_zero: "round2 (js_sub (Finite 0) (Finite 0)) = Finite 0"
  by (simp add: js_sub_def round_binary64_def round2_def two_decimals_def)

lemma computeMemberBalance_eq:
  "computeMemberBalance grp m =
     Some \<lparr>paid = paid_of_list m (expenses_of grp), share = share_of_list m (expenses_of grp),
           net = round2 (js_sub (paid_of_list m (expenses_of grp))
                   (share_of_list m (expenses_of grp)))\<rparr>"
proof (cases grp)
  case None
  then show ?thesis
    by (simp add: computeMemberBalance_def zero_balance_def expenses_of_def paid_of_list_def
          share_of_list_def js_sum_def round2_zero)
next
  case (Some g)
  show ?thesis
  proof (cases "expenses g")
    case None
    with Some show ?thesis
      by (simp add: computeMemberBalance_def zero_balance_def expenses_of_def paid_of_list_def
            share_of_list_def js_sum_def round2_zero)
  next
    case (Some es)
    then have "g = g\<lparr>expenses := Some es\<rparr>" by simp
    then have "computeMemberBalance (Some g) m = computeMemberBalance (Some (g\<lparr>expenses := Some es\<rparr>)) m"
      by simp
    with Some \<open>grp = Some g\<close> show ?thesis
      by (simp add: computeMemberBalance_list expenses_of_def)
  qed
qed

lemma filter_split_expenses:
  "filter (\<lambda>e. splitAmong e \<noteq> [] \<and> P e) (filter (\<lambda>e. splitAmong e \<noteq> []) es) =
     filter (\<lambda>e. splitAmong e \<noteq> [] \<and> P e) es"
  by (induction es) simp_all

section \<open>The claims on the balance\<close>

text \<open>
  C1. For every member identifier and every list of expenses, the share that
  \<open>computeMemberBalance\<close> returns is the sum, over exactly the expenses whose split-among
  list is non-empty and contains the member (as a populated record with that identifier
  or as the bare identifier), of the amount divided by the size of that list and rounded
  to two decimals. Each quotient is rounded before it is added; the running sum is not
  rounded to two decimals. Quotient, rounding and sum are those of the language, on
  binary64 numbers.
\<close>

theorem share_is_sum_of_rounded_shares:
  "map_option share (computeMemberBalance (Some (g\<lparr>expenses := Some es\<rparr>)) memberId) =
     Some (share_of_list memberId es)"
  by (simp add: computeMemberBalance_list)

text \<open>
  C2. The claim: the paid total is the sum of the amounts of every expense whose payer
  matches the member, an expense with an empty split-among list included. It fails on the
  taxi: Alice is its payer, its split-among list is empty, the callback returns at the
  guard before it reaches the addition to \<^verbatim>\<open>paid\<close>, and Alice's paid total is 0, not 50.
\<close>

theorem unsplit_expense_not_paid:
  "map_option paid (computeMemberBalance (Some (trip (Some [taxi]))) ''u-alice'') = Some (Finite 0)
   \<and> claimed_paid ''u-alice'' (expenses_of (Some (trip (Some [taxi])))) = Finite 50"
  by code_simp

text \<open>
  C2, as amended. For every member identifier and every list of expenses, the paid
  total is the unrounded sum of the amounts of the expenses that have a non-empty
  split-among list and whose payer matches the member, the payer being a populated record
  (matched by its identifier) or a bare identifier. An expense with an empty split-among
  list is skipped as a whole: the balance is the balance of the list without these
  expenses.
\<close>

theorem paid_is_sum_over_split_expenses:
  "map_option paid (computeMemberBalance (Some (g\<lparr>expenses := Some es\<rparr>)) memberId) =
     Some (paid_of_list memberId es)
   \<and> computeMemberBalance (Some (g\<lparr>expenses := Some es\<rparr>)) memberId =
       computeMemberBalance (Some (g\<lparr>expenses := Some (filter (\<lambda>e. splitAmong e \<noteq> []) es)\<rparr>)) memberId"
  by (simp add: computeMemberBalance_list paid_of_list_def share_of_list_def filter_split_expenses)

text \<open>
  C3. The claim: the net is the rounding of paid minus share, and so a member who paid
  more than their share has a positive net. The second part fails on amounts of whole
  cents: Alice paid the coffee of 0.10 and the tea of 0.20, and the lunch of 0.30 was
  paid for Alice. The paid total is the binary64 sum of 0.1 and 0.2, which is above
  the share, the binary64 number 0.3; the difference is below half a cent and the net
  is 0.
\<close>

theorem rounding_error_surplus_nets_zero:
  "computeMemberBalance (Some (trip (Some [coffee, tea, lunch]))) ''u-alice'' =
     Some \<lparr>paid = Finite (1351079888211149 / 2 ^ 52),
           share = Finite (5404319552844595 / 2 ^ 54),
           net = Finite 0\<rparr>
   \<and> js_lt (Finite (5404319552844595 / 2 ^ 54)) (Finite (1351079888211149 / 2 ^ 52))"
  by code_simp

text \<open>
  C3, as amended. For every snapshot and member identifier, the net is exactly the
  rounding to two decimals of paid minus share, paid being the unrounded sum and the
  difference the binary64 one. The net is positive exactly when this difference is at
  least 0.005, negative exactly when it is at most -0.005, and zero exactly when it is
  between the two. For finite paid and share: a member who paid at least their share has
  a net that is not negative, one who paid at most their share a net that is not
  positive, and one who paid exactly their share has net zero.
\<close>

theorem net_is_rounded_difference:
  "\<exists>b. computeMemberBalance grp memberId = Some b
     \<and> net b = round2 (js_sub (paid b) (share b))
     \<and> (js_lt (Finite 0) (net b) \<longleftrightarrow> js_le (Finite (5 / 1000)) (js_sub (paid b) (share b)))
     \<and> (js_lt (net b) (Finite 0) \<longleftrightarrow> js_le (js_sub (paid b) (share b)) (Finite (- (5 / 1000))))
     \<and> (net b = Finite 0 \<longleftrightarrow>
          js_lt (Finite (- (5 / 1000))) (js_sub (paid b) (share b))
          \<and> js_lt (js_sub (paid b) (share b)) (Finite (5 / 1000)))
     \<and> (\<forall>p s. paid b = Finite p \<and> share b = Finite s \<longrightarrow>
          (s \<le> p \<longrightarrow> js_le (Finite 0) (net b))
          \<and> (p \<le> s \<longrightarrow> js_le (net b) (Finite 0))
          \<and> (p = s \<longrightarrow> net b = Finite 0))"
proof -
  let ?p = "paid_of_list memberId (expenses_of grp)"
  let ?s = "share_of_list memberId (expenses_of grp)"
  let ?b = "\<lparr>paid = ?p, share = ?s, net = round2 (js_sub ?p ?s)\<rparr>"
  have ret: "computeMemberBalance grp memberId = Some ?b"
    by (rule computeMemberBalance_eq)
  have eq: "net ?b = round2 (js_sub (paid ?b) (share ?b))" by simp
  have pos: "js_lt (Finite 0) (net ?b) \<longleftrightarrow> js_le (Finite (5 / 1000)) (js_sub (paid ?b) (share ?b))"
    by (simp add: round2_pos_iff)
  have neg: "js_lt (net ?b) (Finite 0) \<longleftrightarrow> js_le (js_sub (paid ?b) (share ?b)) (Finite (- (5 / 1000)))"
    using round2_neg_iff [of "js_sub ?p ?s"] by simp
  have zero: "net ?b = Finite 0 \<longleftrightarrow>
          js_lt (Finite (- (5 / 1000))) (js_sub (paid ?b) (share ?b))
          \<and> js_lt (js_sub (paid ?b) (share ?b)) (Finite (5 / 1000))"
    using round2_zero_iff [of "js_sub ?p ?s"] by simp
  have sign: "\<forall>p s. paid ?b = Finite p \<and> share ?b = Finite s \<longrightarrow>
          (s \<le> p \<longrightarrow> js_le (Finite 0) (net ?b))
          \<and> (p \<le> s \<longrightarrow> js_le (net ?b) (Finite 0))
          \<and> (p = s \<longrightarrow> net ?b = Finite 0)"
  proof (intro allI impI)
    fix p s
    assume fin: "paid ?b = Finite p \<and> share ?b = Finite s"
    then have d: "js_sub ?p ?s = round_binary64 (p - s)" by (simp add: js_sub_def)
    have a: "js_le (Finite 0) (net ?b)" if "s \<le> p"
    proof -
      from that have "js_le (Finite 0) (round_binary64 (p - s))"
        by (intro round_binary64_nonneg) simp
      then show ?thesis by (simp add: d round2_nonneg)
    qed
    have b: "js_le (net ?b) (Finite 0)" if "p \<le> s"
    proof -
      from that have "js_le (round_binary64 (p - s)) (Finite 0)"
        by (intro round_binary64_nonpos) simp
      then show ?thesis by (simp add: d round2_nonpos)
    qed
    have c: "net ?b = Finite 0" if "p = s"
      using that by (simp add: d round_binary64_def round2_def two_decimals_def)
    from a b c show "(s \<le> p \<longrightarrow> js_le (Finite 0) (net ?b))
          \<and> (p \<le> s \<longrightarrow> js_le (net ?b) (Finite 0))
          \<and> (p = s \<longrightarrow> net ?b = Finite 0)" by blast
  qed
  from ret eq pos neg zero sign show ?thesis by blast
qed

theorem net_is_rounded_difference_witness:
  "computeMemberBalance (Some (trip (Some [dinner]))) ''u-alice'' =
     Some \<lparr>paid = Finite 100, share = Finite (2345390243441541 / 2 ^ 46),
           net = Finite (4691484174324859 / 2 ^ 46)\<rparr>
   \<and> (2345390243441541 / 2 ^ 46 :: rat) \<le> 100
   \<and> js_le (Finite 0) (Finite (4691484174324859 / 2 ^ 46))
   \<and> js_le (Finite (5 / 1000)) (js_sub (Finite 100) (Finite (2345390243441541 / 2 ^ 46)))
   \<and> js_lt (Finite 0) (Finite (4691484174324859 / 2 ^ 46))"
proof -
  have c: "computeMemberBalance (Some (trip (Some [dinner]))) ''u-alice'' =
     Some \<lparr>paid = Finite 100, share = Finite (2345390243441541 / 2 ^ 46),
           net = Finite (4691484174324859 / 2 ^ 46)\<rparr>"
    by code_simp
  have h: "(2345390243441541 / 2 ^ 46 :: rat) \<le> 100" by simp
  from net_is_rounded_difference [of "Some (trip (Some [dinner]))" "''u-alice''"]
  obtain b where b: "computeMemberBalance (Some (trip (Some [dinner]))) ''u-alice'' = Some b"
    and pos: "js_lt (Finite 0) (net b) \<longleftrightarrow> js_le (Finite (5 / 1000)) (js_sub (paid b) (share b))"
    and sign: "\<forall>p s. paid b = Finite p \<and> share b = Finite s \<longrightarrow>
          (s \<le> p \<longrightarrow> js_le (Finite 0) (net b))
          \<and> (p \<le> s \<longrightarrow> js_le (net b) (Finite 0))
          \<and> (p = s \<longrightarrow> net b = Finite 0)"
    by blast
  from b c have bv: "b = \<lparr>paid = Finite 100, share = Finite (2345390243441541 / 2 ^ 46),
           net = Finite (4691484174324859 / 2 ^ 46)\<rparr>"
    by simp
  from sign h have nonneg: "js_le (Finite 0) (Finite (4691484174324859 / 2 ^ 46))"
    unfolding bv by simp
  have positive: "js_lt (Finite 0) (Finite (4691484174324859 / 2 ^ 46))" by simp
  with pos have surplus: "js_le (Finite (5 / 1000)) (js_sub (Finite 100) (Finite (2345390243441541 / 2 ^ 46)))"
    unfolding bv by simp
  from c h nonneg surplus positive show ?thesis by blast
qed

text \<open>
  C4. The claim: for an expense with amount \<open>A\<close> and \<open>n > 0\<close> members in its split-among
  list, each contribution is \<open>A / n\<close> rounded to two decimals, and the \<open>n\<close> contributions
  sum to \<open>A\<close> up to \<open>n \<times> 0.005\<close>. The bound fails on the fee: 0.25 split two ways has the
  quotient 0.125, \<^verbatim>\<open>toFixed\<close> prints 0.13, each of the two members gets the binary64
  number 0.13, which is above 13/100, and twice that number is further than 0.01 from
  0.25.
\<close>

theorem quarter_split_exceeds_drift_bound:
  "amount fee = Finite (1 / 4)
   \<and> length (splitAmong fee) = 2
   \<and> individualShare fee = Some (Finite (1170935903116329 / 2 ^ 53))
   \<and> map_option share (computeMemberBalance (Some (trip (Some [fee]))) ''u-alice'')
       = Some (Finite (1170935903116329 / 2 ^ 53))
   \<and> map_option share (computeMemberBalance (Some (trip (Some [fee]))) ''u-bob'')
       = Some (Finite (1170935903116329 / 2 ^ 53))
   \<and> (2 * (5 / 1000) :: rat) < \<bar>(1170935903116329 / 2 ^ 53 + 1170935903116329 / 2 ^ 53) - 1 / 4\<bar>"
  by code_simp

text \<open>
  C4, as amended. For every expense with a finite amount \<open>A\<close> of magnitude at most
  \<open>2\<^sup>1\<^sup>0\<^sup>2\<^sup>3\<close> and a split-among list of size \<open>n > 0\<close>: the quotient is a finite binary64
  number \<open>x\<close>, at most half a quantum from \<open>A / n\<close>; the individual share is the finite
  number \<open>y\<close> that is \<open>x\<close> rounded to two decimals, it is what the callback adds to the
  share of each listed member, and it is the share that \<open>computeMemberBalance\<close> returns
  to each listed member for the expense alone; \<open>y\<close> differs from \<open>x\<close> by at most 0.005 and half the quantum
  of the two-decimal value; and \<open>n\<close> times \<open>y\<close> differs from \<open>A\<close> by at most \<open>n\<close> times the sum
  of 0.005 and the two half quanta.
\<close>

theorem individual_share_and_drift:
  assumes "splitAmong e \<noteq> []" and "amount e = Finite A" and "\<bar>A\<bar> \<le> 2 powi 1023"
  shows "\<exists>x y. js_divide (amount e) (length (splitAmong e)) = Some (Finite x)
     \<and> individualShare e = Some (Finite y)
     \<and> Finite y = round2 (Finite x)
     \<and> (\<forall>u \<in> set (splitAmong e). \<forall>acc.
           map_option snd (forEach_body (ref_id u) e acc) = Some (js_add (snd acc) (Finite y)))
     \<and> (\<forall>u \<in> set (splitAmong e).
           map_option share (computeMemberBalance (Some (g\<lparr>expenses := Some [e]\<rparr>)) (ref_id u))
             = Some (Finite y))
     \<and> \<bar>x - A / of_nat (length (splitAmong e))\<bar> \<le> quantum (A / of_nat (length (splitAmong e))) / 2
     \<and> \<bar>y - x\<bar> \<le> 5 / 1000 + quantum (two_decimals x) / 2
     \<and> \<bar>of_nat (length (splitAmong e)) * y - A\<bar> \<le>
         of_nat (length (splitAmong e)) *
           (5 / 1000 + quantum (two_decimals x) / 2
              + quantum (A / of_nat (length (splitAmong e))) / 2)"
proof -
  let ?n = "length (splitAmong e)"
  let ?a = "A / of_nat ?n"
  from assms(1) have n: "0 < ?n" by simp
  have n1: "(1::rat) \<le> of_nat ?n" using assms(1) by (cases "splitAmong e") simp_all
  have "\<bar>A\<bar> / of_nat ?n \<le> \<bar>A\<bar> / 1"
    using n1 assms(1) by (intro divide_left_mono) simp_all
  with assms(3) have "\<bar>?a\<bar> \<le> 2 powi 1023" by simp
  then obtain x where x: "round_binary64 ?a = Finite x"
    using round_binary64_finite by blast
  then have xe: "\<bar>x - ?a\<bar> \<le> quantum ?a / 2" by (rule round_binary64_error)
  from n x assms(2) have q: "js_divide (amount e) ?n = Some (Finite x)"
    by (simp add: js_divide_def)
  from n x assms(2) have qq: "js_quotient (amount e) ?n = Finite x" by simp
  obtain y where y: "round2 (Finite x) = Finite y"
    and ye: "\<bar>y - x\<bar> \<le> 5 / 1000 + quantum (two_decimals x) / 2"
    using round2_finite_error by blast
  from assms(1) qq y have ind: "individualShare e = Some (Finite y)"
    by (simp add: individualShare_nonempty)
  have each: "\<forall>u \<in> set (splitAmong e). \<forall>acc.
      map_option snd (forEach_body (ref_id u) e acc) = Some (js_add (snd acc) (Finite y))"
  proof (intro ballI allI)
    fix u acc
    assume "u \<in> set (splitAmong e)"
    then have "ref_id u \<in> set (map ref_id (splitAmong e))" by simp
    with assms(1) qq y show "map_option snd (forEach_body (ref_id u) e acc) = Some (js_add (snd acc) (Finite y))"
      by (cases acc) (simp add: forEach_body_eq)
  qed
  from x y have "round_binary64 y = Finite y" by (rule round2_binary64)
  then have zero: "js_add (Finite 0) (Finite y) = Finite y" by simp
  have whole: "\<forall>u \<in> set (splitAmong e).
      map_option share (computeMemberBalance (Some (g\<lparr>expenses := Some [e]\<rparr>)) (ref_id u))
        = Some (Finite y)"
  proof
    fix u
    assume "u \<in> set (splitAmong e)"
    then have "ref_id u \<in> set (map ref_id (splitAmong e))" by simp
    with assms(1) qq y zero
    show "map_option share (computeMemberBalance (Some (g\<lparr>expenses := Some [e]\<rparr>)) (ref_id u))
        = Some (Finite y)"
      by (simp add: computeMemberBalance_list share_of_list_def js_sum_def)
  qed
  have "of_nat ?n * y - A = of_nat ?n * (y - ?a)"
    using n by (simp add: right_diff_distrib)
  then have "\<bar>of_nat ?n * y - A\<bar> = of_nat ?n * \<bar>y - ?a\<bar>"
    by (simp only: abs_mult abs_of_nat)
  also have "\<dots> \<le> of_nat ?n * (5 / 1000 + quantum (two_decimals x) / 2 + quantum ?a / 2)"
  proof (rule mult_left_mono)
    from xe ye show "\<bar>y - ?a\<bar> \<le> 5 / 1000 + quantum (two_decimals x) / 2 + quantum ?a / 2"
      by linarith
    show "(0::rat) \<le> of_nat ?n" by simp
  qed
  finally have drift: "\<bar>of_nat ?n * y - A\<bar> \<le>
      of_nat ?n * (5 / 1000 + quantum (two_decimals x) / 2 + quantum ?a / 2)" .
  from q ind y each whole xe ye drift show ?thesis
    by (intro exI [of _ x] exI [of _ y]) simp
qed

theorem individual_share_and_drift_witness:
  "splitAmong dinner \<noteq> [] \<and> amount dinner = Finite 100 \<and> \<bar>100 :: rat\<bar> \<le> 2 powi 1023
   \<and> individualShare dinner = Some (Finite (2345390243441541 / 2 ^ 46))
   \<and> (\<exists>x. js_divide (amount dinner) (length (splitAmong dinner)) = Some (Finite x)
         \<and> \<bar>2345390243441541 / 2 ^ 46 - x\<bar> \<le> 5 / 1000 + quantum (two_decimals x) / 2
         \<and> \<bar>of_nat (length (splitAmong dinner)) * (2345390243441541 / 2 ^ 46) - 100\<bar> \<le>
             of_nat (length (splitAmong dinner)) *
               (5 / 1000 + quantum (two_decimals x) / 2
                  + quantum (100 / of_nat (length (splitAmong dinner))) / 2))"
proof -
  have ne: "splitAmong dinner \<noteq> []" by (simp add: dinner_def)
  have am: "amount dinner = Finite 100" by code_simp
  have "\<bar>100 :: rat\<bar> \<le> 10 ^ 21 + 1" by simp
  with below_overflow have small: "\<bar>100 :: rat\<bar> \<le> 2 powi 1023" by linarith
  have ind: "individualShare dinner = Some (Finite (2345390243441541 / 2 ^ 46))" by code_simp
  from individual_share_and_drift [OF ne am small]
  obtain x y where q: "js_divide (amount dinner) (length (splitAmong dinner)) = Some (Finite x)"
    and iy: "individualShare dinner = Some (Finite y)"
    and ye: "\<bar>y - x\<bar> \<le> 5 / 1000 + quantum (two_decimals x) / 2"
    and drift: "\<bar>of_nat (length (splitAmong dinner)) * y - 100\<bar> \<le>
         of_nat (length (splitAmong dinner)) *
           (5 / 1000 + quantum (two_decimals x) / 2
              + quantum (100 / of_nat (length (splitAmong dinner))) / 2)"
    by blast
  from ind iy have "y = 2345390243441541 / 2 ^ 46" by simp
  with q ye drift ne am small ind show ?thesis by blast
qed

text \<open>
  C5. A member identifier that is the payer of no expense and occurs in no split-among
  list, known to the group or not, gets paid 0, share 0 and net 0; the computation returns
  this balance and fails nowhere.
\<close>

theorem uninvolved_member_has_zero_balance:
  assumes "\<forall>e \<in> set (expenses_of grp).
             \<not> payer_matches memberId e \<and> \<not> list_ex (ref_matches memberId) (splitAmong e)"
  shows "computeMemberBalance grp memberId =
           Some \<lparr>paid = Finite 0, share = Finite 0, net = Finite 0\<rparr>"
proof -
  from assms have "filter (\<lambda>e. splitAmong e \<noteq> [] \<and> map_option ref_id (paidBy e) = Some memberId)
      (expenses_of grp) = []"
    by (simp add: filter_empty_conv payer_matches_iff)
  then have p: "paid_of_list memberId (expenses_of grp) = Finite 0"
    by (simp add: paid_of_list_def js_sum_def)
  from assms have "filter (\<lambda>e. splitAmong e \<noteq> [] \<and> memberId \<in> set (map ref_id (splitAmong e)))
      (expenses_of grp) = []"
    by (simp add: filter_empty_conv list_ex_ref_matches)
  then have s: "share_of_list memberId (expenses_of grp) = Finite 0"
    by (simp add: share_of_list_def js_sum_def)
  show ?thesis
    by (simp add: computeMemberBalance_eq p s round2_zero)
qed

theorem uninvolved_member_has_zero_balance_witness:
  "list_all (\<lambda>e. \<not> payer_matches ''u-dave'' e \<and> \<not> list_ex (ref_matches ''u-dave'') (splitAmong e))
     (expenses_of (Some (trip (Some [dinner, taxi]))))
   \<and> computeMemberBalance (Some (trip (Some [dinner, taxi]))) ''u-dave''
       = Some \<lparr>paid = Finite 0, share = Finite 0, net = Finite 0\<rparr>"
proof -
  have h: "list_all (\<lambda>e. \<not> payer_matches ''u-dave'' e \<and> \<not> list_ex (ref_matches ''u-dave'') (splitAmong e))
     (expenses_of (Some (trip (Some [dinner, taxi]))))"
    by (simp add: expenses_of_def trip_def dinner_def taxi_def payer_matches_def alice_def)
  then have "\<forall>e \<in> set (expenses_of (Some (trip (Some [dinner, taxi])))).
       \<not> payer_matches ''u-dave'' e \<and> \<not> list_ex (ref_matches ''u-dave'') (splitAmong e)"
    by (simp only: list_all_iff)
  then have "computeMemberBalance (Some (trip (Some [dinner, taxi]))) ''u-dave''
       = Some \<lparr>paid = Finite 0, share = Finite 0, net = Finite 0\<rparr>"
    by (rule uninvolved_member_has_zero_balance)
  with h show ?thesis by (rule conjI)
qed

text \<open>
  C9. \<open>computeMemberBalance\<close> is total: it returns the zero balance when the snapshot
  is absent and when its expense list is missing, it returns a balance for every snapshot,
  the callback returns for every expense, and the quotient of the individual share is
  undefined only for an empty split-among list, on which the guard has returned before.
\<close>

theorem computeMemberBalance_total:
  "computeMemberBalance None memberId = Some \<lparr>paid = Finite 0, share = Finite 0, net = Finite 0\<rparr>
   \<and> computeMemberBalance (Some (g\<lparr>expenses := None\<rparr>)) memberId
       = Some \<lparr>paid = Finite 0, share = Finite 0, net = Finite 0\<rparr>
   \<and> (\<exists>b. computeMemberBalance grp memberId = Some b)
   \<and> (\<exists>acc'. forEach_body memberId e acc = Some acc')
   \<and> (individualShare e = None \<longleftrightarrow> splitAmong e = [])"
proof -
  have absent: "computeMemberBalance None memberId = Some \<lparr>paid = Finite 0, share = Finite 0, net = Finite 0\<rparr>"
    by (simp add: computeMemberBalance_def zero_balance_def)
  have missing: "computeMemberBalance (Some (g\<lparr>expenses := None\<rparr>)) memberId
      = Some \<lparr>paid = Finite 0, share = Finite 0, net = Finite 0\<rparr>"
    by (simp add: computeMemberBalance_def zero_balance_def)
  have returns: "\<exists>b. computeMemberBalance grp memberId = Some b"
    by (simp add: computeMemberBalance_eq)
  have step: "\<exists>acc'. forEach_body memberId e acc = Some acc'"
    by (cases acc) (simp add: forEach_body_eq)
  have guard: "individualShare e = None \<longleftrightarrow> splitAmong e = []"
    by (simp add: individualShare_def js_divide_def)
  from absent missing returns step guard show ?thesis by blast
qed

section \<open>The expense event\<close>

lemma fee_amount: "amount fee = Finite (1 / 4)"
  by code_simp

lemma fetchGroupData_actions: "snd (fetchGroupData en v) = snd (fetchGroupData en v')"
  by (simp add: fetchGroupData_def split: option.splits)

lemma fetchGroupData_group: "view_group (fst (fetchGroupData en v)) = view_group v"
  by (simp add: fetchGroupData_def split: option.splits)

lemma handleExpense_group:
  "view_group (fst (handleExpense ex en v)) = mergeExpense ex (view_group v)"
proof -
  have "fst (handleExpense ex en v) = fst (fetchGroupData en (v\<lparr>view_group := mergeExpense ex (view_group v)\<rparr>))"
    by (simp add: handleExpense_def Let_def split: prod.splits)
  then show ?thesis by (simp add: fetchGroupData_group)
qed

lemma handleExpense_actions:
  "snd (handleExpense ex en v) =
     ToastNewExpense (description ex) (amount ex) # snd (fetchGroupData en v)"
proof -
  have "snd (handleExpense ex en v) = ToastNewExpense (description ex) (amount ex)
      # snd (fetchGroupData en (v\<lparr>view_group := mergeExpense ex (view_group v)\<rparr>))"
    by (simp add: handleExpense_def Let_def split: prod.splits)
  then show ?thesis
    using fetchGroupData_actions [of en "v\<lparr>view_group := mergeExpense ex (view_group v)\<rparr>" v]
    by simp
qed

lemma mergeExpense_eq:
  "mergeExpense ex prev =
     (case prev of
        None \<Rightarrow> None
      | Some g \<Rightarrow>
          if list_ex (\<lambda>e. expense_id e = expense_id ex) (expenses_of (Some g)) then Some g
          else Some (g\<lparr>expenses := Some (expenses_of (Some g) @ [ex])\<rparr>))"
  by (simp add: mergeExpense_def expenses_of_def split: option.splits)

lemma mergeExpense_distinct:
  assumes "distinct (map expense_id (expenses_of prev))"
  shows "distinct (map expense_id (expenses_of (mergeExpense ex prev)))"
proof (cases prev)
  case None
  then show ?thesis by (simp add: mergeExpense_def expenses_of_def)
next
  case (Some g)
  show ?thesis
  proof (cases "list_ex (\<lambda>e. expense_id e = expense_id ex) (expenses_of (Some g))")
    case True
    with Some assms show ?thesis by (simp add: mergeExpense_eq)
  next
    case False
    then have "expense_id ex \<notin> expense_id ` set (expenses_of (Some g))"
      by (auto simp: list_ex_iff)
    moreover from False Some
    have "expenses_of (mergeExpense ex prev) = expenses_of (Some g) @ [ex]"
      by (simp add: mergeExpense_eq expenses_of_def)
    ultimately show ?thesis using assms Some by simp
  qed
qed

text \<open>
  C6. The claim: for every local group state the merge leaves the expense list unchanged
  when the identifier is present and appends the expense otherwise. It fails before the
  first fetch has answered: the state is \<^verbatim>\<open>null\<close>, the updater returns it as it is, and
  the expense of the event is not kept.
\<close>

theorem expense_event_dropped_before_first_fetch:
  "view_group unloaded = None
   \<and> expenses_of (view_group (fst (handleExpense dinner signed_in unloaded))) = []
   \<and> expenses_of (view_group unloaded) @ [dinner] = [dinner]"
  by (simp add: handleExpense_group mergeExpense_def unloaded_def expenses_of_def)

text \<open>
  C6, as amended. For every incoming expense event: when a group snapshot is loaded, the
  merge leaves it unchanged if an expense with the same identifier is present and appends
  the expense to the list otherwise; when none is loaded, the state stays absent. In every
  case \<^verbatim>\<open>fetchGroupData\<close> is called after the update, which with a stored token requests
  the whole group. The merge keeps the expense identifiers of the local list distinct.
\<close>

theorem expense_event_merges_by_identifier:
  "view_group (fst (handleExpense ex en v)) =
     (case view_group v of
        None \<Rightarrow> None
      | Some g \<Rightarrow>
          if list_ex (\<lambda>e. expense_id e = expense_id ex) (expenses_of (Some g)) then Some g
          else Some (g\<lparr>expenses := Some (expenses_of (Some g) @ [ex])\<rparr>))
   \<and> snd (handleExpense ex en v) =
       ToastNewExpense (description ex) (amount ex) # snd (fetchGroupData en v)
   \<and> (truthy (Some token) \<and> getAuthToken (store en) = Some token \<longrightarrow>
        snd (handleExpense ex en v) =
          [ToastNewExpense (description ex) (amount ex), AxiosGetGroup (groupId en) token])
   \<and> (distinct (map expense_id (expenses_of (view_group v))) \<longrightarrow>
        distinct (map expense_id (expenses_of (view_group (fst (handleExpense ex en v))))))"
proof -
  have merge: "view_group (fst (handleExpense ex en v)) =
     (case view_group v of
        None \<Rightarrow> None
      | Some g \<Rightarrow>
          if list_ex (\<lambda>e. expense_id e = expense_id ex) (expenses_of (Some g)) then Some g
          else Some (g\<lparr>expenses := Some (expenses_of (Some g) @ [ex])\<rparr>))"
    by (simp only: handleExpense_group mergeExpense_eq)
  have refetch: "snd (handleExpense ex en v) =
       ToastNewExpense (description ex) (amount ex) # snd (fetchGroupData en v)"
    by (rule handleExpense_actions)
  have request: "truthy (Some token) \<and> getAuthToken (store en) = Some token \<longrightarrow>
        snd (handleExpense ex en v) =
          [ToastNewExpense (description ex) (amount ex), AxiosGetGroup (groupId en) token]"
    by (simp add: handleExpense_actions fetchGroupData_def truthy_def)
  have unique: "distinct (map expense_id (expenses_of (view_group v))) \<longrightarrow>
        distinct (map expense_id (expenses_of (view_group (fst (handleExpense ex en v)))))"
    by (simp add: handleExpense_group mergeExpense_distinct)
  from merge refetch request unique show ?thesis by blast
qed

theorem expense_event_merges_by_identifier_witness:
  "truthy (Some ''jwt-1'') \<and> getAuthToken (store signed_in) = Some ''jwt-1''
   \<and> distinct (map expense_id (expenses_of (view_group joined)))
   \<and> view_group (fst (handleExpense fee signed_in joined)) = Some (trip (Some [dinner, fee]))
   \<and> snd (handleExpense fee signed_in joined) =
        [ToastNewExpense ''fee'' (Finite (1 / 4)), AxiosGetGroup ''g-trip'' ''jwt-1'']
   \<and> distinct (map expense_id (expenses_of (view_group (fst (handleExpense fee signed_in joined)))))"
proof -
  note merged = expense_event_merges_by_identifier [of fee signed_in joined "''jwt-1''"]
  have tok: "truthy (Some ''jwt-1'') \<and> getAuthToken (store signed_in) = Some ''jwt-1''"
    by (simp add: truthy_def getAuthToken_def js_or_def signed_in_def)
  have dist: "distinct (map expense_id (expenses_of (view_group joined)))"
    by (simp add: joined_def expenses_of_def trip_def dinner_def)
  have new: "\<not> list_ex (\<lambda>e. expense_id e = expense_id fee) (expenses_of (Some (trip (Some [dinner]))))"
    by (simp add: expenses_of_def trip_def dinner_def fee_def)
  have app: "trip (Some [dinner])\<lparr>expenses := Some (expenses_of (Some (trip (Some [dinner]))) @ [fee])\<rparr>
      = trip (Some [dinner, fee])"
    by (simp add: trip_def expenses_of_def)
  have vg: "view_group joined = Some (trip (Some [dinner]))" by (simp add: joined_def)
  from merged have "view_group (fst (handleExpense fee signed_in joined)) =
      (if list_ex (\<lambda>e. expense_id e = expense_id fee) (expenses_of (Some (trip (Some [dinner]))))
       then Some (trip (Some [dinner]))
       else Some (trip (Some [dinner])\<lparr>expenses := Some (expenses_of (Some (trip (Some [dinner]))) @ [fee])\<rparr>))"
    by (simp add: vg)
  with new app have grp: "view_group (fst (handleExpense fee signed_in joined)) = Some (trip (Some [dinner, fee]))"
    by simp
  from merged tok have "snd (handleExpense fee signed_in joined) =
      [ToastNewExpense (description fee) (amount fee), AxiosGetGroup (groupId signed_in) ''jwt-1'']"
    by blast
  then have acts: "snd (handleExpense fee signed_in joined) =
        [ToastNewExpense ''fee'' (Finite (1 / 4)), AxiosGetGroup ''g-trip'' ''jwt-1'']"
    by (simp add: fee_amount) (simp add: fee_def signed_in_def)
  from merged dist
  have uniq: "distinct (map expense_id (expenses_of (view_group (fst (handleExpense fee signed_in joined)))))"
    by blast
  from tok dist grp acts uniq show ?thesis by blast
qed

section \<open>Joining the realtime room\<close>

lemma fetchGroupData_without_token:
  "\<not> truthy (getAuthToken (store en)) \<Longrightarrow>
     fetchGroupData en v = (v\<lparr>loading := False\<rparr>, [Navigate ''/login''])"
  by (simp add: fetchGroupData_def truthy_def split: option.splits)

lemma socketEffect_without_token:
  "\<not> truthy (getAuthToken (store en)) \<Longrightarrow> socketEffect en v = (v\<lparr>subscribed := False\<rparr>, [])"
  by (simp add: socketEffect_def)

lemma runEffects_without_token:
  assumes "\<not> truthy (getAuthToken (store en))"
  shows "runEffects t en v =
     (case t of
        Mount \<Rightarrow> (v\<lparr>loading := False, subscribed := False\<rparr>, [Navigate ''/login''])
      | FetchGroupDataChanged \<Rightarrow>
          (v\<lparr>loading := False, subscribed := False\<rparr>, socketCleanup v @ [Navigate ''/login''])
      | CurrentUserIdChanged \<Rightarrow> (v\<lparr>subscribed := False\<rparr>, socketCleanup v))"
  using assms
  by (cases t)
     (simp_all add: runEffects_def fetchGroupData_without_token socketEffect_without_token)

lemma socketCleanup_offs: "set (socketCleanup v) \<subseteq> range SocketOff"
  by (auto simp: socketCleanup_def)

text \<open>
  C7. The claim: whenever the token is absent when the view attempts to join the room,
  the join is aborted, nothing connects, and navigation goes to the login route. The last
  part fails when the socket effect runs alone: the user identifier changed, the token is
  gone, the effect releases its listeners and returns, and nothing navigates, since only
  \<^verbatim>\<open>fetchGroupData\<close> does and it does not run.
\<close>

theorem silent_abort_on_user_change:
  "getAuthToken (store signed_out) = None
   \<and> snd (runEffects CurrentUserIdChanged signed_out joined) = map SocketOff socket_events
   \<and> Navigate ''/login'' \<notin> set (snd (runEffects CurrentUserIdChanged signed_out joined))"
proof -
  have tok: "getAuthToken (store signed_out) = None"
    by (simp add: getAuthToken_def js_or_def truthy_def signed_out_def)
  then have "\<not> truthy (getAuthToken (store signed_out))" by (simp add: truthy_def)
  then have "snd (runEffects CurrentUserIdChanged signed_out joined) = map SocketOff socket_events"
    by (simp add: runEffects_without_token socketCleanup_def joined_def)
  with tok show ?thesis by auto
qed

text \<open>
  C7, as amended. Whenever the stored token is absent (missing or empty) when the
  socket effect of the group view runs, the effect returns before it connects, announces
  a join intent or registers a listener, and no group request is sent. On mount and when
  the group identifier changed, \<^verbatim>\<open>fetchGroupData\<close> runs in the same pass and navigates
  to the login route; when the effect runs alone, for a change of the current user
  identifier, it only releases the listeners of the run before.
\<close>

theorem join_aborted_without_token:
  assumes "\<not> truthy (getAuthToken (store en))"
  shows "SocketConnect \<notin> set (snd (runEffects t en v))
     \<and> (\<forall>ev payload. SocketEmit ev payload \<notin> set (snd (runEffects t en v)))
     \<and> (\<forall>ev. SocketOn ev \<notin> set (snd (runEffects t en v)))
     \<and> (\<forall>gid token. AxiosGetGroup gid token \<notin> set (snd (runEffects t en v)))
     \<and> \<not> subscribed (fst (runEffects t en v))
     \<and> (if t = CurrentUserIdChanged then snd (runEffects t en v) = socketCleanup v
         else Navigate ''/login'' \<in> set (snd (runEffects t en v)))"
  using socketCleanup_offs [of v]
  by (cases t) (auto simp: runEffects_without_token [OF assms])

theorem join_aborted_without_token_witness:
  "\<not> truthy (getAuthToken (store signed_out))
   \<and> snd (runEffects Mount signed_out unloaded) = [Navigate ''/login'']
   \<and> SocketConnect \<notin> set (snd (runEffects Mount signed_out unloaded))
   \<and> SocketEmit ''joinGroup'' ''g-trip'' \<notin> set (snd (runEffects Mount signed_out unloaded))
   \<and> Navigate ''/login'' \<in> set (snd (runEffects Mount signed_out unloaded))"
proof -
  have h: "\<not> truthy (getAuthToken (store signed_out))"
    by (simp add: getAuthToken_def js_or_def truthy_def signed_out_def)
  have acts: "snd (runEffects Mount signed_out unloaded) = [Navigate ''/login'']"
    by (simp add: runEffects_def fetchGroupData_def socketEffect_def getAuthToken_def js_or_def
          truthy_def signed_out_def)
  from join_aborted_without_token [OF h, of Mount unloaded] h acts show ?thesis by simp
qed

section \<open>The claims on the credential store\<close>

lemma setAuthData_keeps_token_nonempty:
  "sessionStorage st ''token'' \<noteq> Some [] \<Longrightarrow>
     sessionStorage (setAuthData JSON_stringify usr tok st) ''token'' \<noteq> Some []"
  by (simp add: setAuthData_def Let_def split: option.splits)

text \<open>
  C8. After \<open>setAuthData\<close> with a user and a token that are both present (the token
  not empty), the session store and the durable store hold the serialised user and the
  token, and \<open>getAuthToken\<close> returns the token. \<open>getAuthToken\<close> reads the session store
  first and takes the durable store's entry only when the session entry is absent, in the
  sense of the source's \<^verbatim>\<open>||\<close>: missing or empty; where the session entry is not the
  empty string, which \<open>setAuthData\<close> never writes, that is only when it is missing.
  After \<open>clearAuthData\<close> both stores hold neither value and \<open>getAuthToken\<close> returns none.
\<close>

theorem credential_round_trip:
  assumes "truthy (Some token)"
  shows "sessionStorage (setAuthData JSON_stringify (Some u) (Some token) st) ''user'' = Some (JSON_stringify u)
     \<and> sessionStorage (setAuthData JSON_stringify (Some u) (Some token) st) ''token'' = Some token
     \<and> localStorage (setAuthData JSON_stringify (Some u) (Some token) st) ''user'' = Some (JSON_stringify u)
     \<and> localStorage (setAuthData JSON_stringify (Some u) (Some token) st) ''token'' = Some token
     \<and> getAuthToken (setAuthData JSON_stringify (Some u) (Some token) st) = Some token
     \<and> getAuthToken st' =
         (if truthy (sessionStorage st' ''token'') then sessionStorage st' ''token''
          else localStorage st' ''token'')
     \<and> (sessionStorage st' ''token'' \<noteq> Some [] \<longrightarrow>
          getAuthToken st' =
            (case sessionStorage st' ''token'' of
               None \<Rightarrow> localStorage st' ''token''
             | Some t \<Rightarrow> Some t)
          \<and> sessionStorage (setAuthData JSON_stringify usr tok st') ''token'' \<noteq> Some [])
     \<and> sessionStorage (clearAuthData st'') ''user'' = None
     \<and> sessionStorage (clearAuthData st'') ''token'' = None
     \<and> localStorage (clearAuthData st'') ''user'' = None
     \<and> localStorage (clearAuthData st'') ''token'' = None
     \<and> getAuthToken (clearAuthData st'') = None"
proof -
  from assms have ne: "token \<noteq> []" by (simp add: truthy_def)
  have stored: "sessionStorage (setAuthData JSON_stringify (Some u) (Some token) st) ''user'' = Some (JSON_stringify u)
     \<and> sessionStorage (setAuthData JSON_stringify (Some u) (Some token) st) ''token'' = Some token
     \<and> localStorage (setAuthData JSON_stringify (Some u) (Some token) st) ''user'' = Some (JSON_stringify u)
     \<and> localStorage (setAuthData JSON_stringify (Some u) (Some token) st) ''token'' = Some token
     \<and> getAuthToken (setAuthData JSON_stringify (Some u) (Some token) st) = Some token"
    using ne by (simp add: setAuthData_def getAuthToken_def js_or_def truthy_def Let_def)
  have read: "getAuthToken st' =
         (if truthy (sessionStorage st' ''token'') then sessionStorage st' ''token''
          else localStorage st' ''token'')"
    by (simp add: getAuthToken_def js_or_def)
  have literal: "sessionStorage st' ''token'' \<noteq> Some [] \<longrightarrow>
          getAuthToken st' =
            (case sessionStorage st' ''token'' of
               None \<Rightarrow> localStorage st' ''token''
             | Some t \<Rightarrow> Some t)
          \<and> sessionStorage (setAuthData JSON_stringify usr tok st') ''token'' \<noteq> Some []"
    by (simp add: getAuthToken_def js_or_def truthy_def setAuthData_keeps_token_nonempty
          split: option.splits)
  have cleared: "sessionStorage (clearAuthData st'') ''user'' = None
     \<and> sessionStorage (clearAuthData st'') ''token'' = None
     \<and> localStorage (clearAuthData st'') ''user'' = None
     \<and> localStorage (clearAuthData st'') ''token'' = None
     \<and> getAuthToken (clearAuthData st'') = None"
    by (simp add: clearAuthData_def getAuthToken_def js_or_def truthy_def)
  from stored read literal cleared show ?thesis by blast
qed

theorem credential_round_trip_witness:
  "truthy (Some ''jwt-1'')
   \<and> sessionStorage (store signed_out) ''token'' \<noteq> Some []
   \<and> getAuthToken (setAuthData user_id (Some alice) (Some ''jwt-1'') (store signed_out)) = Some ''jwt-1''
   \<and> sessionStorage (setAuthData user_id (Some alice) (Some ''jwt-1'') (store signed_out)) ''user''
       = Some ''u-alice''
   \<and> getAuthToken (store signed_out) = None
   \<and> getAuthToken (clearAuthData (setAuthData user_id (Some alice) (Some ''jwt-1'') (store signed_out)))
       = None"
proof -
  have h: "truthy (Some ''jwt-1'')" by (simp add: truthy_def)
  have e: "sessionStorage (store signed_out) ''token'' = None" "localStorage (store signed_out) ''token'' = None"
    by (simp_all add: signed_out_def)
  note trip = credential_round_trip [OF h, of user_id alice "store signed_out" "store signed_out"
      None None "setAuthData user_id (Some alice) (Some ''jwt-1'') (store signed_out)"]
  from trip have a: "getAuthToken (setAuthData user_id (Some alice) (Some ''jwt-1'') (store signed_out)) = Some ''jwt-1''"
    by blast
  from trip have b: "sessionStorage (setAuthData user_id (Some alice) (Some ''jwt-1'') (store signed_out)) ''user''
       = Some ''u-alice''"
    by (simp add: alice_def)
  from trip e have c: "getAuthToken (store signed_out) = None" by simp
  from trip have d: "getAuthToken (clearAuthData (setAuthData user_id (Some alice) (Some ''jwt-1'') (store signed_out)))
       = None"
    by blast
  from h e a b c d show ?thesis by simp
qed

text \<open>
  C10. \<open>setAuthData\<close> with an absent user or an absent (missing or empty) token writes
  nothing: both stores are as they were.
\<close>

theorem setAuthData_writes_nothing_when_falsy:
  assumes "usr = None \<or> \<not> truthy token"
  shows "setAuthData JSON_stringify usr token st = st"
  using assms by (auto simp: setAuthData_def truthy_def split: option.splits)

theorem setAuthData_writes_nothing_when_falsy_witness:
  "\<not> truthy (Some '''')
   \<and> setAuthData user_id (Some alice) (Some '''') (store signed_in) = store signed_in
   \<and> setAuthData user_id None (Some ''jwt-2'') (store signed_in) = store signed_in"
proof -
  have h: "\<not> truthy (Some '''')" by (simp add: truthy_def)
  then have a: "Some alice = None \<or> \<not> truthy (Some '''')" by simp
  have b: "(None :: user option) = None \<or> \<not> truthy (Some ''jwt-2'')" by simp
  from setAuthData_writes_nothing_when_falsy [OF a, of user_id "store signed_in"]
    setAuthData_writes_nothing_when_falsy [OF b, of user_id "store signed_in"] h
  show ?thesis by simp
qed

end
